theory Spec2Isabelle
  imports Main "HOL-Library.Product_Lexorder"
begin

section \<open>Python values used by the scripts\<close>

text \<open>
  The scripts under \<^verbatim>\<open>.github/scripts\<close> work on Python \<^verbatim>\<open>str\<close> values. A
  \<^typ>\<open>string\<close> here is a list of characters with code points below 256; in that range
  the only decimal digits (\<^verbatim>\<open>\d\<close>, \<^verbatim>\<open>int()\<close>) are \<^verbatim>\<open>0\<close> to \<^verbatim>\<open>9\<close>.
  Python integers are unbounded and modelled by \<^typ>\<open>int\<close>. Reading one from a decimal
  string is limited by the interpreter: \<^verbatim>\<open>int()\<close> refuses a string of more than
  \<^verbatim>\<open>sys.get_int_max_str_digits()\<close> digits, 4300 unless the interpreter is configured
  otherwise.
\<close>

datatype py_error = ValueError | AttributeError | KeyError | ReError | Unmodelled

definition py_bind :: "py_error + 'a \<Rightarrow> ('a \<Rightarrow> py_error + 'b) \<Rightarrow> py_error + 'b" where
  "py_bind m f = (case m of Inl e \<Rightarrow> Inl e | Inr a \<Rightarrow> f a)"

text \<open>\<^verbatim>\<open>s.startswith(p)\<close>, \<^verbatim>\<open>s.endswith(p)\<close> and \<^verbatim>\<open>p in s\<close>.\<close>

definition startswith :: "string \<Rightarrow> string \<Rightarrow> bool" where
  "startswith s p = (take (length p) s = p)"

definition endswith :: "string \<Rightarrow> string \<Rightarrow> bool" where
  "endswith s p = (length p \<le> length s \<and> drop (length s - length p) s = p)"

fun contains :: "string \<Rightarrow> string \<Rightarrow> bool" where
  "contains [] p = (p = [])"
| "contains (c # cs) p = (startswith (c # cs) p \<or> contains cs p)"

definition is_digit :: "char \<Rightarrow> bool" where
  "is_digit c = (c \<in> set ''0123456789'')"

definition is_lower :: "char \<Rightarrow> bool" where
  "is_lower c = (c \<in> set ''abcdefghijklmnopqrstuvwxyz'')"

definition digit_val :: "char \<Rightarrow> nat" where
  "digit_val c = of_char c - 48"

definition dec :: "string \<Rightarrow> nat" where
  "dec s = foldl (\<lambda>a c. 10 * a + digit_val c) 0 s"

definition is_number :: "string \<Rightarrow> bool" where
  "is_number s = (s \<noteq> [] \<and> list_all is_digit s)"

definition int_max_str_digits :: nat where
  "int_max_str_digits = 4300"

text \<open>
  \<^verbatim>\<open>int(s)\<close> on a string. A non-empty run of at most \<open>int_max_str_digits\<close> digits is
  read in base ten (leading zeros allowed, and counted). A longer run of digits raises
  \<^verbatim>\<open>ValueError\<close>. Every other string is answered with \<^verbatim>\<open>ValueError\<close> as well: Python
  also accepts a sign, surrounding blanks and single underscores, spellings that a group
  captured by \<^verbatim>\<open>\d+\<close> never has.
\<close>

definition py_int :: "string \<Rightarrow> py_error + int" where
  "py_int s =
     (if is_number s \<and> length s \<le> int_max_str_digits then Inr (int (dec s))
      else Inl ValueError)"


section \<open>get_python_version.py: PythonManifestParser\<close>

subsection \<open>Stage detection\<close>

definition is_alpha :: "string \<Rightarrow> bool" where
  "is_alpha version =
     (endswith version ''alpha'' \<or> contains version ''-alpha.'' \<or> contains version ''-alpha'')"

definition is_beta :: "string \<Rightarrow> bool" where
  "is_beta version =
     (endswith version ''beta'' \<or> contains version ''-beta.'' \<or> contains version ''-beta'')"

definition is_rc :: "string \<Rightarrow> bool" where
  "is_rc version =
     (endswith version ''rc'' \<or> contains version ''-rc.'' \<or> contains version ''-rc'')"

definition is_stable :: "string \<Rightarrow> bool" where
  "is_stable version = (\<not> (is_alpha version \<or> is_beta version \<or> is_rc version))"

subsection \<open>The version pattern\<close>

text \<open>
  \<^verbatim>\<open>re.match\<close> is a backtracking matcher: each piece of the pattern offers its ways
  to match in order of preference, and the first combination that lets the whole pattern
  succeed is the match. A piece is modelled by the list of its alternatives at a position,
  each with what it captured and the text left over; a greedy repetition lists its longest
  run first.
\<close>

definition rx_plus :: "(char \<Rightarrow> bool) \<Rightarrow> string \<Rightarrow> (string \<times> string) list" where
  "rx_plus P s =
     map (\<lambda>n. (take n s, drop n s)) (rev [1 ..< Suc (length (takeWhile P s))])"

definition rx_lit :: "char \<Rightarrow> string \<Rightarrow> string list" where
  "rx_lit c s = (case s of [] \<Rightarrow> [] | x # r \<Rightarrow> if x = c then [r] else [])"

definition rx_opt_lit :: "char \<Rightarrow> string \<Rightarrow> string list" where
  "rx_opt_lit c s = rx_lit c s @ [s]"

text \<open>The group \<^verbatim>\<open>-?([a-z]+)(?:\.|)(\d+)\<close>, capturing \<^verbatim>\<open>pre\<close> and \<^verbatim>\<open>pre_num\<close>.\<close>

definition pre_group :: "string \<Rightarrow> ((string \<times> string) \<times> string) list" where
  "pre_group s =
     [((pre, pre_num), s4).
        s1 \<leftarrow> rx_opt_lit (CHR ''-'') s,
        (pre, s2) \<leftarrow> rx_plus is_lower s1,
        s3 \<leftarrow> rx_opt_lit (CHR ''.'') s2,
        (pre_num, s4) \<leftarrow> rx_plus is_digit s3]"

text \<open>
  \<^verbatim>\<open>(\d+)\.(\d+)\.(\d+)(?:-?([a-z]+)(?:\.|)(\d+))?\<close>: the optional group first tries
  to take part and otherwise matches nothing, leaving its two captures unset.
\<close>

definition version_re :: "string \<Rightarrow> (string \<times> string \<times> string \<times> (string \<times> string) option) list" where
  "version_re s =
     [(major, minor, patch, pre).
        (major, s1) \<leftarrow> rx_plus is_digit s,
        s2 \<leftarrow> rx_lit (CHR ''.'') s1,
        (minor, s3) \<leftarrow> rx_plus is_digit s2,
        s4 \<leftarrow> rx_lit (CHR ''.'') s3,
        (patch, s5) \<leftarrow> rx_plus is_digit s4,
        (pre, s6) \<leftarrow> map (\<lambda>(g, r). (Some g, r)) (pre_group s5) @ [(None, s5)]]"

text \<open>\<^verbatim>\<open>re.match(pattern, version)\<close>: the preferred match at the start, or \<^verbatim>\<open>None\<close>.\<close>

definition re_match_version :: "string \<Rightarrow> (string \<times> string \<times> string \<times> (string \<times> string) option) option" where
  "re_match_version version = (case version_re version of [] \<Rightarrow> None | g # _ \<Rightarrow> Some g)"

subsection \<open>Keys and comparison\<close>

type_synonym version_key = "int \<times> int \<times> int \<times> int \<times> int"

definition pre_order :: "string \<rightharpoonup> int" where
  "pre_order = map_of [('''', 0), (''rc'', 1), (''beta'', 2), (''alpha'', 3)]"

definition zero_key :: version_key where
  "zero_key = (0, 0, 0, 0, 0)"

definition parse_version :: "string \<Rightarrow> py_error + version_key" where
  "parse_version version =
     (case re_match_version version of
        None \<Rightarrow> Inr zero_key
      | Some (major, minor, patch, grp) \<Rightarrow>
          (let pre = (case grp of None \<Rightarrow> '''' | Some (p, _) \<Rightarrow> p) in
           py_bind (case grp of
                      None \<Rightarrow> Inr 0
                    | Some (_, n) \<Rightarrow> if n = [] then Inr 0 else py_int n) (\<lambda>pre_num.
           py_bind (py_int major) (\<lambda>ma.
           py_bind (py_int minor) (\<lambda>mi.
           py_bind (py_int patch) (\<lambda>pa.
           Inr (ma, mi, pa,
                - (case pre_order pre of None \<Rightarrow> 4 | Some r \<Rightarrow> r),
                - pre_num)))))))"

text \<open>\<^verbatim>\<open>(pa > pb) - (pa < pb)\<close> on tuples, which Python orders lexicographically.\<close>

definition version_compare :: "string \<Rightarrow> string \<Rightarrow> py_error + int" where
  "version_compare a b =
     py_bind (parse_version a) (\<lambda>pa.
     py_bind (parse_version b) (\<lambda>pb.
     Inr ((if pa > pb then 1 else 0) - (if pa < pb then 1 else 0))))"


subsection \<open>Glob filter\<close>

text \<open>
  \<^verbatim>\<open>re.escape\<close> (Python 3.7 and later) puts a backslash before each character of
  \<^verbatim>\<open>()[]{}?*+-|^$\.&~# \t\n\r\v\f\<close> and leaves every other character alone.
\<close>

definition re_special :: "char \<Rightarrow> bool" where
  "re_special c =
     (c \<in> set (''()[]{}?*+-|^$'' @ [CHR 0x5C] @ ''.&~# '' @
               [CHR 0x09, CHR 0x0A, CHR 0x0D, CHR 0x0B, CHR 0x0C]))"

definition re_escape :: "string \<Rightarrow> string" where
  "re_escape pattern = concat (map (\<lambda>c. if re_special c then [CHR 0x5C, c] else [c]) pattern)"

text \<open>
  \<^verbatim>\<open>s.replace(old, new)\<close>: occurrences of \<^verbatim>\<open>old\<close> are replaced from the left, without
  overlap; an empty \<^verbatim>\<open>old\<close> matches before every character and at the end.
\<close>

fun str_replace :: "string \<Rightarrow> string \<Rightarrow> string \<Rightarrow> string" where
  "str_replace old new [] = (if old = [] then new else [])"
| "str_replace old new (c # cs) =
     (if old = [] then new @ concat (map (\<lambda>x. x # new) (c # cs))
      else if startswith (c # cs) old
        then new @ str_replace old new (drop (length old) (c # cs))
        else c # str_replace old new cs)"

text \<open>
  The patterns that reach \<^verbatim>\<open>re.fullmatch\<close> here are made of three kinds of pieces: a
  plain character, a backslash followed by a character that is not an ASCII letter or
  digit (that character, literally), and \<^verbatim>\<open>.*\<close> (any run of characters other than a
  newline). \<open>re_parse\<close> reads exactly this fragment; a backslash at the end of the pattern
  is \<^verbatim>\<open>re.error\<close>, and any other construct of the pattern language is reported as
  \<open>Unmodelled\<close>.
\<close>

datatype rx_item = Lit char | AnyStar

definition is_ascii_alnum :: "char \<Rightarrow> bool" where
  "is_ascii_alnum c =
     (is_digit c \<or> is_lower c \<or> c \<in> set ''ABCDEFGHIJKLMNOPQRSTUVWXYZ'')"

definition re_meta :: "char \<Rightarrow> bool" where
  "re_meta c = (c \<in> set (''.^$*+?{}[]|()'' @ [CHR 0x5C]))"

definition quantifier_next :: "string \<Rightarrow> bool" where
  "quantifier_next s = (case s of [] \<Rightarrow> False | c # _ \<Rightarrow> c \<in> set ''*+?{'')"

fun re_parse :: "string \<Rightarrow> py_error + rx_item list" where
  "re_parse [] = Inr []"
| "re_parse (c # cs) =
     (if c = CHR 0x5C then
        (case cs of
           [] \<Rightarrow> Inl ReError
         | d # ds \<Rightarrow>
             if is_ascii_alnum d \<or> quantifier_next ds then Inl Unmodelled
             else py_bind (re_parse ds) (\<lambda>r. Inr (Lit d # r)))
      else if c = CHR ''.'' then
        (case cs of
           [] \<Rightarrow> Inl Unmodelled
         | d # ds \<Rightarrow>
             if d = CHR ''*'' \<and> \<not> quantifier_next ds
             then py_bind (re_parse ds) (\<lambda>r. Inr (AnyStar # r))
             else Inl Unmodelled)
      else if re_meta c \<or> quantifier_next cs then Inl Unmodelled
      else py_bind (re_parse cs) (\<lambda>r. Inr (Lit c # r)))"

text \<open>
  Whether the whole string matches. The matcher tries the longest run for \<^verbatim>\<open>.*\<close> first
  and backs off; which run it settles on does not change whether a match exists.
\<close>

fun rx_fullmatch :: "rx_item list \<Rightarrow> string \<Rightarrow> bool" where
  "rx_fullmatch [] s = (s = [])"
| "rx_fullmatch (Lit c # r) [] = False"
| "rx_fullmatch (Lit c # r) (x # xs) = (x = c \<and> rx_fullmatch r xs)"
| "rx_fullmatch (AnyStar # r) [] = rx_fullmatch r []"
| "rx_fullmatch (AnyStar # r) (x # xs) =
     ((x \<noteq> CHR 0x0A \<and> rx_fullmatch (AnyStar # r) xs) \<or> rx_fullmatch r (x # xs))"

definition version_matches_filter :: "string \<Rightarrow> string \<Rightarrow> py_error + bool" where
  "version_matches_filter version pattern =
     (let regex = str_replace [CHR 0x5C, CHR ''*''] ''.*'' (re_escape pattern) in
      py_bind (re_parse regex) (\<lambda>r. Inr (rx_fullmatch r version)))"

subsection \<open>Filtering the manifest\<close>

text \<open>
  The manifest is a list of JSON objects. An entry is a dictionary from field names to
  JSON values; \<^verbatim>\<open>entry.get("version")\<close> is the lookup. A value that is not a string
  has no \<^verbatim>\<open>endswith\<close>, so classifying it raises \<^verbatim>\<open>AttributeError\<close>.
\<close>

datatype jvalue = JNull | JBool bool | JInt int | JStr string
  | JArr "jvalue list" | JObj "(string \<times> jvalue) list"

type_synonym entry = "string \<rightharpoonup> jvalue"

fun truthy :: "jvalue \<Rightarrow> bool" where
  "truthy JNull = False"
| "truthy (JBool b) = b"
| "truthy (JInt n) = (n \<noteq> 0)"
| "truthy (JStr s) = (s \<noteq> [])"
| "truthy (JArr xs) = (xs \<noteq> [])"
| "truthy (JObj kvs) = (kvs \<noteq> [])"

datatype release_types_arg = RT_None | RT_Str string | RT_List "string list"

text \<open>One round of the loop over \<^verbatim>\<open>self.manifest\<close>: the list \<^verbatim>\<open>versions\<close> afterwards.\<close>

definition filter_step ::
  "bool \<Rightarrow> bool \<Rightarrow> bool \<Rightarrow> bool \<Rightarrow> string list \<Rightarrow> entry \<Rightarrow> py_error + string list" where
  "filter_step include_alpha include_beta include_rc include_stable versions entry =
     (case entry ''version'' of
        None \<Rightarrow> Inr versions
      | Some v \<Rightarrow>
          if \<not> truthy v then Inr versions
          else (case v of
                  JStr version \<Rightarrow>
                    if include_alpha \<and> is_alpha version then Inr (versions @ [version])
                    else if include_beta \<and> is_beta version then Inr (versions @ [version])
                    else if include_rc \<and> is_rc version then Inr (versions @ [version])
                    else if include_stable \<and> is_stable version then Inr (versions @ [version])
                    else Inr versions
                | _ \<Rightarrow>
                    if include_alpha \<or> include_beta \<or> include_rc \<or> include_stable
                    then Inl AttributeError else Inr versions))"

fun filter_loop ::
  "bool \<Rightarrow> bool \<Rightarrow> bool \<Rightarrow> bool \<Rightarrow> string list \<Rightarrow> entry list \<Rightarrow> py_error + string list" where
  "filter_loop ia ib irc ist versions [] = Inr versions"
| "filter_loop ia ib irc ist versions (entry # rest) =
     py_bind (filter_step ia ib irc ist versions entry) (\<lambda>versions'.
       filter_loop ia ib irc ist versions' rest)"

text \<open>\<^verbatim>\<open>[v for v in versions if version_matches_filter(v, version_filter)]\<close>.\<close>

fun keep_matching :: "string \<Rightarrow> string list \<Rightarrow> py_error + string list" where
  "keep_matching version_filter [] = Inr []"
| "keep_matching version_filter (v # vs) =
     py_bind (version_matches_filter v version_filter) (\<lambda>keep.
     py_bind (keep_matching version_filter vs) (\<lambda>kept.
       Inr (if keep then v # kept else kept)))"

definition filter_versions ::
  "entry list \<Rightarrow> release_types_arg \<Rightarrow> string option \<Rightarrow> py_error + string list" where
  "filter_versions manifest release_types version_filter =
     (let release_types = (case release_types of
                             RT_None \<Rightarrow> [''stable'']
                           | RT_Str s \<Rightarrow> [s]
                           | RT_List l \<Rightarrow> l);
          include_alpha = (''alpha'' \<in> set release_types);
          include_beta = (''beta'' \<in> set release_types);
          include_rc = (''rc'' \<in> set release_types);
          include_stable = (''stable'' \<in> set release_types)
      in py_bind (filter_loop include_alpha include_beta include_rc include_stable [] manifest)
           (\<lambda>versions.
              case version_filter of
                None \<Rightarrow> Inr versions
              | Some pat \<Rightarrow> if pat = [] then Inr versions else keep_matching pat versions))"


section \<open>generate_partial_manifest.py\<close>

definition PREFIXES :: "string list" where
  "PREFIXES = [''python-'', ''trivy-python-'']"

definition SUFFIXES :: "string list" where
  "SUFFIXES = [''.tar.gz'', ''.sbom.json'', ''.json'', ''.log'']"

text \<open>
  \<^verbatim>\<open>str.isspace\<close> for one character below code point 256, and \<^verbatim>\<open>s.strip()\<close>.
\<close>

definition py_isspace :: "char \<Rightarrow> bool" where
  "py_isspace c =
     (c \<in> set [CHR 0x09, CHR 0x0A, CHR 0x0B, CHR 0x0C, CHR 0x0D, CHR 0x1C, CHR 0x1D,
               CHR 0x1E, CHR 0x1F, CHR 0x20, CHR 0x85, CHR 0xA0])"

definition py_strip :: "string \<Rightarrow> string" where
  "py_strip s = rev (dropWhile py_isspace (rev (dropWhile py_isspace s)))"

definition validate_download_url ::
  "string \<Rightarrow> string \<Rightarrow> string \<Rightarrow> string \<Rightarrow> string \<Rightarrow> bool" where
  "validate_download_url url owner repo tag filename =
     (if url = [] \<or> py_strip url = [] then False
      else if \<not> startswith url ''https://github.com/'' then False
      else (let expected_base =
                  ''https://github.com/'' @ owner @ ''/'' @ repo @ ''/releases/download/''
            in if \<not> startswith url expected_base then False
               else True))"

text \<open>The two loops of \<^verbatim>\<open>strip_known_wrappers\<close>, each leaving at its first match.\<close>

fun strip_prefix_loop :: "string list \<Rightarrow> string \<Rightarrow> string" where
  "strip_prefix_loop [] cleaned = cleaned"
| "strip_prefix_loop (prefix # rest) cleaned =
     (if startswith cleaned prefix then drop (length prefix) cleaned
      else strip_prefix_loop rest cleaned)"

text \<open>\<^verbatim>\<open>cleaned[: -len(suffix)]\<close>; with an empty suffix the slice \<^verbatim>\<open>[:0]\<close> is empty.\<close>

fun strip_suffix_loop :: "string list \<Rightarrow> string \<Rightarrow> string" where
  "strip_suffix_loop [] cleaned = cleaned"
| "strip_suffix_loop (suffix # rest) cleaned =
     (if endswith cleaned suffix
      then (if suffix = [] then [] else take (length cleaned - length suffix) cleaned)
      else strip_suffix_loop rest cleaned)"

definition strip_known_wrappers :: "string \<Rightarrow> string" where
  "strip_known_wrappers filename = strip_suffix_loop SUFFIXES (strip_prefix_loop PREFIXES filename)"

text \<open>\<^verbatim>\<open>s.split(sep)\<close> for a separator of one character; the result is never empty.\<close>

fun py_split :: "char \<Rightarrow> string \<Rightarrow> string list" where
  "py_split sep [] = [[]]"
| "py_split sep (c # cs) =
     (if c = sep then [] # py_split sep cs
      else (case py_split sep cs of
              [] \<Rightarrow> [[c]]
            | field # fields \<Rightarrow> (c # field) # fields))"

text \<open>The returned dictionary, as the list of its items in the order they are written.\<close>

definition parse_filename :: "string \<Rightarrow> (string \<times> string) list option" where
  "parse_filename filename =
     (let stripped = strip_known_wrappers filename;
          parts = py_split (CHR ''-'') stripped
      in if length parts < 4 then None
         else Some [(''version'', parts ! 0),
                    (''platform'', parts ! 1),
                    (''platform_version'', parts ! 2),
                    (''arch'', parts ! 3)])"

definition should_skip :: "string \<Rightarrow> bool" where
  "should_skip name = (\<not> endswith name ''.tar.gz'' \<or> contains name ''trivy'')"

definition dict_get :: "(string \<times> string) list \<Rightarrow> string \<Rightarrow> py_error + string" where
  "dict_get d k = (case map_of d k of None \<Rightarrow> Inl KeyError | Some v \<Rightarrow> Inr v)"

definition release_base :: "string \<Rightarrow> string \<Rightarrow> string" where
  "release_base owner repo = ''https://github.com/'' @ owner @ ''/'' @ repo @ ''/releases/download/''"

text \<open>
  An asset is a dictionary with string values; \<^verbatim>\<open>asset.get(key, "")\<close> reads it. The
  function returns the pair \<^verbatim>\<open>(entries, errors)\<close>.
\<close>

definition asset_get :: "(string \<rightharpoonup> string) \<Rightarrow> string \<Rightarrow> string" where
  "asset_get asset k = (case asset k of None \<Rightarrow> [] | Some v \<Rightarrow> v)"

fun build_loop ::
  "string \<Rightarrow> string \<Rightarrow> string \<Rightarrow> (string \<times> string) list list \<Rightarrow> string list \<Rightarrow>
   (string \<rightharpoonup> string) list \<Rightarrow> py_error + ((string \<times> string) list list \<times> string list)" where
  "build_loop tag owner repo entries errors [] = Inr (entries, errors)"
| "build_loop tag owner repo entries errors (asset # rest) =
     (let name = asset_get asset ''name'' in
      if should_skip name then build_loop tag owner repo entries errors rest
      else (case parse_filename name of
              None \<Rightarrow>
                build_loop tag owner repo entries
                  (errors @ [''Filename parsing failed for asset '' @ [CHR 0x27] @ name @ [CHR 0x27]])
                  rest
            | Some parsed \<Rightarrow>
                (let download_url = asset_get asset ''browser_download_url'' in
                 if \<not> validate_download_url download_url owner repo tag name
                 then build_loop tag owner repo entries
                        (errors @ [''Invalid download_url for '' @ [CHR 0x27] @ name @ [CHR 0x27]
                           @ '': expected '' @ [CHR 0x27] @ release_base owner repo @ tag @ ''/''
                           @ name @ [CHR 0x27] @ '', got '' @ [CHR 0x27] @ download_url @ [CHR 0x27]])
                        rest
                 else (let final_download_url = release_base owner repo @ tag @ ''/'' @ name in
                       py_bind (dict_get parsed ''arch'') (\<lambda>arch.
                       py_bind (dict_get parsed ''platform'') (\<lambda>platform.
                       py_bind (dict_get parsed ''platform_version'') (\<lambda>platform_version.
                         build_loop tag owner repo
                           (entries @ [[(''version'', tag),
                                        (''filename'', name),
                                        (''arch'', arch),
                                        (''platform'', platform),
                                        (''platform_version'', platform_version),
                                        (''download_url'', final_download_url)]])
                           errors rest)))))))"

definition build_manifest_entries ::
  "string \<Rightarrow> (string \<rightharpoonup> string) list \<Rightarrow> string \<Rightarrow> string \<Rightarrow>
   py_error + ((string \<times> string) list list \<times> string list)" where
  "build_manifest_entries tag assets owner repo = build_loop tag owner repo [] [] assets"


section \<open>Notions of the specification\<close>

text \<open>
  The three-stage scheme: stages alpha, beta and rc, ordered alpha below beta below rc;
  a stable version has no stage suffix.
\<close>

datatype stage = Alpha | Beta | Rc

fun stage_name :: "stage \<Rightarrow> string" where
  "stage_name Alpha = ''alpha''"
| "stage_name Beta = ''beta''"
| "stage_name Rc = ''rc''"

fun stage_level :: "stage \<Rightarrow> nat" where
  "stage_level Alpha = 0"
| "stage_level Beta = 1"
| "stage_level Rc = 2"

text \<open>
  The written forms: \<^verbatim>\<open>MAJOR.MINOR.PATCH\<close> for a stable version, and for a pre-release
  with a numeric sub-ordinal \<^verbatim>\<open>MAJOR.MINOR.PATCH-STAGE.N\<close>, where the hyphen and the dot
  before \<^verbatim>\<open>N\<close> may each be left out (\<^verbatim>\<open>rc.1\<close>, \<^verbatim>\<open>rc1\<close>).
\<close>

definition stable_str :: "string \<Rightarrow> string \<Rightarrow> string \<Rightarrow> string" where
  "stable_str M m p = M @ ''.'' @ m @ ''.'' @ p"

definition pre_str ::
  "string \<Rightarrow> string \<Rightarrow> string \<Rightarrow> string \<Rightarrow> stage \<Rightarrow> string \<Rightarrow> string \<Rightarrow> string" where
  "pre_str M m p hy st dot N = M @ ''.'' @ m @ ''.'' @ p @ hy @ stage_name st @ dot @ N"

text \<open>A digit group that \<^verbatim>\<open>int()\<close> reads: digits only, at least one, within the limit.\<close>

definition digit_group :: "string \<Rightarrow> bool" where
  "digit_group s = (is_number s \<and> length s \<le> int_max_str_digits)"

text \<open>The digit groups captured by a match of the version pattern are all within the limit.\<close>

fun groups_within_limit :: "string \<times> string \<times> string \<times> (string \<times> string) option \<Rightarrow> bool" where
  "groups_within_limit (M, m, p, None) =
     (length M \<le> int_max_str_digits \<and> length m \<le> int_max_str_digits
      \<and> length p \<le> int_max_str_digits)"
| "groups_within_limit (M, m, p, Some (pre, n)) =
     (length M \<le> int_max_str_digits \<and> length m \<le> int_max_str_digits
      \<and> length p \<le> int_max_str_digits \<and> length n \<le> int_max_str_digits)"

definition hyphen_ok :: "string \<Rightarrow> bool" where
  "hyphen_ok hy = (hy = [] \<or> hy = ''-'')"

definition dot_ok :: "string \<Rightarrow> bool" where
  "dot_ok dot = (dot = [] \<or> dot = ''.'')"

datatype version_form =
    Stable_form string string string
  | Pre_form string string string string stage string string

fun render :: "version_form \<Rightarrow> string" where
  "render (Stable_form M m p) = stable_str M m p"
| "render (Pre_form M m p hy st dot N) = pre_str M m p hy st dot N"

fun well_formed :: "version_form \<Rightarrow> bool" where
  "well_formed (Stable_form M m p) = (digit_group M \<and> digit_group m \<and> digit_group p)"
| "well_formed (Pre_form M m p hy st dot N) =
     (digit_group M \<and> digit_group m \<and> digit_group p \<and> hyphen_ok hy \<and> dot_ok dot
      \<and> digit_group N)"

text \<open>The release a written form denotes: its numbers and, for a pre-release, its stage and sub-ordinal.\<close>

fun release_of :: "version_form \<Rightarrow> nat \<times> nat \<times> nat \<times> (stage \<times> nat) option" where
  "release_of (Stable_form M m p) = (dec M, dec m, dec p, None)"
| "release_of (Pre_form M m p hy st dot N) = (dec M, dec m, dec p, Some (st, dec N))"

text \<open>The classes of the classifier, taken in the fixed order alpha, beta, rc, else stable.\<close>

datatype release_class = Class_alpha | Class_beta | Class_rc | Class_stable

definition classify :: "string \<Rightarrow> release_class" where
  "classify v =
     (if is_alpha v then Class_alpha
      else if is_beta v then Class_beta
      else if is_rc v then Class_rc
      else Class_stable)"

fun class_name :: "release_class \<Rightarrow> string" where
  "class_name Class_alpha = ''alpha''"
| "class_name Class_beta = ''beta''"
| "class_name Class_rc = ''rc''"
| "class_name Class_stable = ''stable''"

text \<open>A glob read character by character: \<^verbatim>\<open>*\<close> stands for \<^verbatim>\<open>.*\<close>, anything else for itself.\<close>

definition glob_items :: "string \<Rightarrow> rx_item list" where
  "glob_items pattern = map (\<lambda>c. if c = CHR ''*'' then AnyStar else Lit c) pattern"

text \<open>Fields joined by a separator, the inverse of splitting.\<close>

fun join_fields :: "char \<Rightarrow> string list \<Rightarrow> string" where
  "join_fields sep [] = []"
| "join_fields sep [f] = f"
| "join_fields sep (f # g # fs) = f @ sep # join_fields sep (g # fs)"

text \<open>The first element of a list of alternatives, if any.\<close>

definition first :: "'a list \<Rightarrow> 'a option" where
  "first xs = (case xs of [] \<Rightarrow> None | x # _ \<Rightarrow> Some x)"



text \<open>What one character of a glob becomes in the pattern handed to \<^verbatim>\<open>re.fullmatch\<close>.\<close>

definition glob_token :: "char \<Rightarrow> string" where
  "glob_token c = (if c = CHR ''*'' then ''.*'' else if re_special c then [CHR 0x5C, c] else [c])"

text \<open>An emitted entry whose version is the tag and whose URL is written from owner, repo, tag and file name.\<close>

definition rebuilt_entry :: "string \<Rightarrow> string \<Rightarrow> string \<Rightarrow> (string \<times> string) list \<Rightarrow> bool" where
  "rebuilt_entry tag owner repo e =
     (\<exists>name. map_of e ''filename'' = Some name \<and> map_of e ''version'' = Some tag
        \<and> map_of e ''download_url'' = Some (release_base owner repo @ tag @ ''/'' @ name))"

section \<open>Properties of the version key\<close>

lemma rx_plus_sound:
  assumes "(a, r) \<in> set (rx_plus P s)"
  shows "a \<noteq> [] \<and> list_all P a \<and> s = a @ r"
proof -
  from assms obtain n where n: "1 \<le> n" "n \<le> length (takeWhile P s)" and a: "a = take n s" and r: "r = drop n s"
    by (auto simp: rx_plus_def)
  have le: "n \<le> length s" using n(2) length_takeWhile_le[of P s] by (meson le_trans)
  have "take n s = take n (takeWhile P s)"
    by (metis n(2) append_eq_conv_conj takeWhile_dropWhile_id take_all_iff take_append
        diff_is_0_eq take_0 append_Nil2)
  then have "set (take n s) \<subseteq> set (takeWhile P s)"
    by (metis set_take_subset)
  then have "list_all P a" unfolding a list_all_iff
    by (meson set_takeWhileD subsetD)
  moreover have "a \<noteq> []" using n(1) le a by auto
  ultimately show ?thesis using a r by simp
qed

lemma takeWhile_run:
  "list_all P a \<Longrightarrow> r = [] \<or> \<not> P (hd r) \<Longrightarrow> takeWhile P (a @ r) = a"
  by (cases r) (auto simp: list_all_iff takeWhile_append)

lemma rx_plus_run:
  assumes "a \<noteq> []" "list_all P a" "r = [] \<or> \<not> P (hd r)"
  shows "rx_plus P (a @ r) = (a, r) # map (\<lambda>n. (take n a, drop n a @ r)) (rev [1 ..< length a])"
proof -
  have tw: "takeWhile P (a @ r) = a" using assms takeWhile_run by blast
  have "0 < length a" using assms(1) by simp
  then have "[1 ..< Suc (length a)] = [1 ..< length a] @ [length a]"
    by (metis One_nat_def Suc_leI upt_Suc_append)
  then show ?thesis
    by (simp add: rx_plus_def tw)
qed


lemma first_append: "first (xs @ ys) = (case first xs of None \<Rightarrow> first ys | Some x \<Rightarrow> Some x)"
  by (cases xs) (simp_all add: first_def)


lemma first_plus_run:
  assumes "a \<noteq> []" "list_all P a" "r = [] \<or> \<not> P (hd r)" "F (a, r) \<noteq> []"
  shows "first (concat (map F (rx_plus P (a @ r)))) = first (F (a, r))"
  using assms by (cases "F (a, r)") (simp_all add: rx_plus_run first_append first_def)

lemma re_match_first: "re_match_version v = first (version_re v)"
  by (simp add: re_match_version_def first_def)


lemma digit_not_lower: "is_digit c \<Longrightarrow> \<not> is_lower c"
  by (auto simp: is_digit_def is_lower_def)

lemma digit_not_dot: "is_digit c \<Longrightarrow> c \<noteq> CHR ''.'' \<and> c \<noteq> CHR ''-''"
  by (auto simp: is_digit_def)

lemma lower_not_dash: "is_lower c \<Longrightarrow> c \<noteq> CHR ''-'' \<and> c \<noteq> CHR ''.'' \<and> \<not> is_digit c"
  by (auto simp: is_digit_def is_lower_def)

lemma rx_lit_miss: "s = [] \<or> hd s \<noteq> c \<Longrightarrow> rx_lit c s = []"
  by (cases s) (auto simp: rx_lit_def)

lemma rx_lit_hit: "rx_lit c (c # r) = [r]"
  by (simp add: rx_lit_def)

lemma pre_group_first:
  assumes st: "st \<noteq> []" "list_all is_lower st" and n: "is_number n"
    and hy: "hy = [] \<or> hy = ''-''" and dot: "dot = [] \<or> dot = ''.''"
  shows "first (pre_group (hy @ st @ dot @ n)) = Some ((st, n), [])"
proof -
  have nd: "n \<noteq> []" "is_digit (hd n)" "list_all is_digit n"
    using n by (cases n; auto simp: is_number_def)+
  have sc: "is_lower (hd st)"
    using st by (cases st) auto
  have n1: "rx_plus is_digit n = (n, []) # map (\<lambda>k. (take k n, drop k n @ [])) (rev [1 ..< length n])"
    using rx_plus_run[of n is_digit "[]"] n by (simp add: is_number_def)
  define F where "F = (\<lambda>(pre :: string, s2).
     [((pre, pre_num), s4). s3 \<leftarrow> rx_opt_lit (CHR ''.'') s2, (pre_num, s4) \<leftarrow> rx_plus is_digit s3])"
  have F1: "first (F (st, dot @ n)) = Some ((st, n), [])"
    using dot
  proof
    assume "dot = []"
    moreover have "rx_lit (CHR ''.'') n = []"
      using nd digit_not_dot[of "hd n"] by (intro rx_lit_miss) simp
    ultimately show ?thesis
      by (simp add: F_def rx_opt_lit_def n1 first_def)
  next
    assume "dot = ''.''"
    then show ?thesis
      by (simp add: F_def rx_opt_lit_def rx_lit_hit n1 first_def)
  qed
  have r: "dot @ n = [] \<or> \<not> is_lower (hd (dot @ n))"
    using dot nd digit_not_lower[of "hd n"] by (auto simp: is_lower_def)
  from F1 have "F (st, dot @ n) \<noteq> []"
    by (auto simp: first_def)
  then have s1: "first (concat (map F (rx_plus is_lower (st @ dot @ n)))) = Some ((st, n), [])"
    using first_plus_run[OF st r, of F] F1 by simp
  have pg: "pre_group s = concat (map (\<lambda>s1. concat (map F (rx_plus is_lower s1))) (rx_opt_lit (CHR ''-'') s))" for s
    by (simp add: pre_group_def F_def)
  show ?thesis using hy
  proof
    assume "hy = []"
    moreover have "rx_lit (CHR ''-'') (st @ dot @ n) = []"
      using st sc lower_not_dash[of "hd st"] by (intro rx_lit_miss) simp
    ultimately show ?thesis using s1
      by (simp add: pg rx_opt_lit_def)
  next
    assume "hy = ''-''"
    then show ?thesis using s1
      by (simp add: pg rx_opt_lit_def rx_lit_hit first_append)
  qed
qed

lemma first_Some_ne: "first xs = Some x \<Longrightarrow> xs \<noteq> []"
  by (auto simp: first_def)

lemma re_match_version_shape:
  assumes M: "is_number M" and m: "is_number m" and p: "is_number p"
    and t: "t = [] \<or> \<not> is_digit (hd t)"
  shows "re_match_version (M @ ''.'' @ m @ ''.'' @ p @ t)
           = Some (M, m, p, map_option fst (first (pre_group t)))"
proof -
  define H3 where "H3 = (\<lambda>(major :: string) (minor :: string) (patch :: string, s5).
     [(major, minor, patch, pre).
        (pre, s6) \<leftarrow> map (\<lambda>(g, r). (Some g, r)) (pre_group s5) @ [(None, s5)]])"
  define H2 where "H2 = (\<lambda>(major :: string) (minor :: string, s3).
     [x. s4 \<leftarrow> rx_lit (CHR ''.'') s3, x \<leftarrow> concat (map (H3 major minor) (rx_plus is_digit s4))])"
  define H1 where "H1 = (\<lambda>(major :: string, s1).
     [x. s2 \<leftarrow> rx_lit (CHR ''.'') s1, x \<leftarrow> concat (map (H2 major) (rx_plus is_digit s2))])"
  have vr: "version_re s = concat (map H1 (rx_plus is_digit s))" for s
    by (simp add: version_re_def H1_def H2_def H3_def)
  have nM: "M \<noteq> []" "list_all is_digit M" and nm: "m \<noteq> []" "list_all is_digit m"
    and np: "p \<noteq> []" "list_all is_digit p"
    using M m p by (simp_all add: is_number_def)
  have dot: "\<not> is_digit (CHR ''.'')" by (simp add: is_digit_def)
  let ?res = "Some (M, m, p, map_option fst (first (pre_group t)))"
  have f3: "first (H3 M m (p, t)) = ?res"
    by (cases "pre_group t") (auto simp: H3_def first_def)
  have a3: "first (concat (map (H3 M m) (rx_plus is_digit (p @ t)))) = ?res"
    using first_plus_run[OF np t, of "H3 M m"] f3 first_Some_ne[OF f3] by simp
  have f2: "first (H2 M (m, ''.'' @ p @ t)) = ?res"
    using a3 by (simp add: H2_def rx_lit_hit)
  have a2: "first (concat (map (H2 M) (rx_plus is_digit (m @ ''.'' @ p @ t)))) = ?res"
    using first_plus_run[OF nm _, of "''.'' @ p @ t" "H2 M"] f2 first_Some_ne[OF f2] dot by simp
  have f1: "first (H1 (M, ''.'' @ m @ ''.'' @ p @ t)) = ?res"
    using a2 by (simp add: H1_def rx_lit_hit)
  have a1: "first (concat (map H1 (rx_plus is_digit (M @ ''.'' @ m @ ''.'' @ p @ t)))) = ?res"
    using first_plus_run[OF nM _, of "''.'' @ m @ ''.'' @ p @ t" H1] f1 first_Some_ne[OF f1] dot by simp
  show ?thesis
    using a1 by (simp add: re_match_first vr)
qed

lemma not_digit_dash: "\<not> is_digit (CHR ''-'')"
  by (simp add: is_digit_def)

lemma py_int_group: "digit_group n \<Longrightarrow> py_int n = Inr (int (dec n))"
  by (simp add: py_int_def digit_group_def)

lemma py_int_long: "int_max_str_digits < length n \<Longrightarrow> py_int n = Inl ValueError"
  by (simp add: py_int_def)

lemma digit_group_number: "digit_group n \<Longrightarrow> is_number n"
  by (simp add: digit_group_def)

lemma groups_within_limit_iff:
  "groups_within_limit (M, m, p, g) =
     (length M \<le> int_max_str_digits \<and> length m \<le> int_max_str_digits
      \<and> length p \<le> int_max_str_digits
      \<and> (case g of None \<Rightarrow> True | Some (pre, n) \<Rightarrow> length n \<le> int_max_str_digits))"
  by (cases g) auto

lemma pre_order_stage: "pre_order (stage_name st) = Some (3 - int (stage_level st))"
  by (cases st) (simp_all add: pre_order_def)

lemma stage_name_lower: "stage_name st \<noteq> [] \<and> list_all is_lower (stage_name st)"
  by (cases st) (simp_all add: is_lower_def)

lemma pre_group_Nil: "pre_group [] = []"
  by (simp add: pre_group_def rx_opt_lit_def rx_lit_def rx_plus_def)

lemma match_stable_str:
  assumes "is_number M" "is_number m" "is_number p"
  shows "re_match_version (stable_str M m p) = Some (M, m, p, None)"
  using re_match_version_shape[OF assms, of "[]"]
  by (simp add: pre_group_Nil first_def stable_str_def)

lemma match_pre_str:
  assumes "is_number M" "is_number m" "is_number p" "hyphen_ok hy" "dot_ok dot" "is_number N"
  shows "re_match_version (pre_str M m p hy st dot N) = Some (M, m, p, Some (stage_name st, N))"
proof -
  let ?t = "hy @ stage_name st @ dot @ N"
  have c: "is_lower (hd (stage_name st))" by (cases st) (simp_all add: is_lower_def)
  have t: "?t = [] \<or> \<not> is_digit (hd ?t)"
    using assms(4) c lower_not_dash[of "hd (stage_name st)"] stage_name_lower[of st]
    by (auto simp: hyphen_ok_def is_digit_def)
  have g: "first (pre_group ?t) = Some ((stage_name st, N), [])"
    using pre_group_first[of "stage_name st" N hy dot] stage_name_lower[of st] assms
    by (simp add: hyphen_ok_def dot_ok_def)
  show ?thesis
    using re_match_version_shape[OF assms(1-3) t] g by (simp add: pre_str_def)
qed

lemma parse_stable_str:
  assumes "digit_group M" "digit_group m" "digit_group p"
  shows "parse_version (stable_str M m p) = Inr (int (dec M), int (dec m), int (dec p), 0, 0)"
  using assms match_stable_str[OF assms[THEN digit_group_number]]
  by (simp add: parse_version_def py_int_group py_bind_def pre_order_def)

lemma parse_pre_str:
  assumes "digit_group M" "digit_group m" "digit_group p" "hyphen_ok hy" "dot_ok dot" "digit_group N"
  shows "parse_version (pre_str M m p hy st dot N)
           = Inr (int (dec M), int (dec m), int (dec p), int (stage_level st) - 3, - int (dec N))"
proof -
  have "re_match_version (pre_str M m p hy st dot N) = Some (M, m, p, Some (stage_name st, N))"
    using assms by (intro match_pre_str) (simp_all add: digit_group_def)
  moreover have "N \<noteq> []" using assms(6) by (simp add: digit_group_def is_number_def)
  ultimately show ?thesis
    using assms by (simp add: parse_version_def py_int_group py_bind_def pre_order_stage)
qed

lemma rx_lit_sound: "r \<in> set (rx_lit c s) \<Longrightarrow> s = c # r"
  by (cases s) (auto simp: rx_lit_def split: if_splits)

lemma rx_opt_lit_sound: "r \<in> set (rx_opt_lit c s) \<Longrightarrow> s = c # r \<or> s = r"
  by (auto simp: rx_opt_lit_def dest: rx_lit_sound)

lemma pre_group_needs_digit:
  assumes "x \<in> set (pre_group t)"
  shows "\<exists>c\<in>set t. is_digit c"
proof -
  from assms obtain s1 pre s2 s3 num s4 where
    a: "s1 \<in> set (rx_opt_lit (CHR ''-'') t)" and b: "(pre, s2) \<in> set (rx_plus is_lower s1)"
    and c: "s3 \<in> set (rx_opt_lit (CHR ''.'') s2)" and d: "(num, s4) \<in> set (rx_plus is_digit s3)"
    by (auto simp: pre_group_def)
  from rx_plus_sound[OF d] have n: "num \<noteq> []" "list_all is_digit num" "s3 = num @ s4" by auto
  then have "hd num \<in> set s3" "is_digit (hd num)" by (cases num; simp)+
  moreover have "set s3 \<subseteq> set s2" using rx_opt_lit_sound[OF c] by auto
  moreover have "set s2 \<subseteq> set s1" using rx_plus_sound[OF b] by auto
  moreover have "set s1 \<subseteq> set t" using rx_opt_lit_sound[OF a] by auto
  ultimately show ?thesis by blast
qed

lemma match_bare_stage:
  assumes "is_number M" "is_number m" "is_number p" "hyphen_ok hy"
  shows "re_match_version (stable_str M m p @ hy @ stage_name st) = Some (M, m, p, None)"
proof -
  let ?t = "hy @ stage_name st"
  have nd: "\<not> is_digit c" if "c \<in> set ?t" for c
    using that assms(4) not_digit_dash stage_name_lower[of st] digit_not_lower[of c]
    by (auto simp: hyphen_ok_def list_all_iff)
  have ne: "?t \<noteq> []" using stage_name_lower[of st] by simp
  then have "hd ?t \<in> set ?t" by (rule hd_in_set)
  then have t: "?t = [] \<or> \<not> is_digit (hd ?t)" using nd by blast
  have "pre_group ?t = []"
  proof (cases "pre_group ?t")
    case (Cons x xs)
    then have "x \<in> set (pre_group ?t)" by simp
    from pre_group_needs_digit[OF this] nd show ?thesis by blast
  qed simp
  then show ?thesis
    using re_match_version_shape[OF assms(1-3) t] by (simp add: first_def stable_str_def)
qed

lemma parse_bare_stage:
  assumes "digit_group M" "digit_group m" "digit_group p" "hyphen_ok hy"
  shows "parse_version (stable_str M m p @ hy @ stage_name st)
           = Inr (int (dec M), int (dec m), int (dec p), 0, 0)"
  using assms match_bare_stage[OF assms(1-3)[THEN digit_group_number] assms(4), of st]
  by (simp add: parse_version_def py_int_group py_bind_def pre_order_def)

lemma version_re_sound:
  assumes "(M, m, p, g) \<in> set (version_re s)"
  shows "is_number M \<and> is_number m \<and> is_number p \<and>
         (case g of None \<Rightarrow> True | Some (pre, n) \<Rightarrow> pre \<noteq> [] \<and> is_number n)"
  using assms
  by (auto simp: version_re_def pre_group_def is_number_def dest!: rx_plus_sound split: option.splits)

lemma pre_group_length:
  assumes "((pre, num), r) \<in> set (pre_group t)"
  shows "length num \<le> length t"
proof -
  from assms obtain s1 s2 s3 where
    a: "s1 \<in> set (rx_opt_lit (CHR ''-'') t)" and b: "(pre, s2) \<in> set (rx_plus is_lower s1)"
    and c: "s3 \<in> set (rx_opt_lit (CHR ''.'') s2)" and d: "(num, r) \<in> set (rx_plus is_digit s3)"
    by (auto simp: pre_group_def)
  have "length num \<le> length s3" using rx_plus_sound[OF d] by auto
  moreover have "length s3 \<le> length s2" using rx_opt_lit_sound[OF c] by auto
  moreover have "length s2 \<le> length s1" using rx_plus_sound[OF b] by auto
  moreover have "length s1 \<le> length t" using rx_opt_lit_sound[OF a] by auto
  ultimately show ?thesis by linarith
qed

lemma version_re_lengths:
  assumes "(M, m, p, g) \<in> set (version_re s)" "length s \<le> L"
  shows "length M \<le> L \<and> length m \<le> L \<and> length p \<le> L \<and>
         (case g of None \<Rightarrow> True | Some (pre, n) \<Rightarrow> length n \<le> L)"
proof -
  from assms(1) obtain s1 s2 s3 s4 s5 where
    a: "(M, s1) \<in> set (rx_plus is_digit s)" and b: "s2 \<in> set (rx_lit (CHR ''.'') s1)"
    and c: "(m, s3) \<in> set (rx_plus is_digit s2)" and d: "s4 \<in> set (rx_lit (CHR ''.'') s3)"
    and e: "(p, s5) \<in> set (rx_plus is_digit s4)"
    and f: "g = None \<or> (\<exists>pre n r. g = Some (pre, n) \<and> ((pre, n), r) \<in> set (pre_group s5))"
    by (auto simp: version_re_def) blast
  have l1: "length M \<le> length s" "length s1 \<le> length s" using rx_plus_sound[OF a] by auto
  have l2: "length s2 \<le> length s1" using rx_lit_sound[OF b] by auto
  have l3: "length m \<le> length s2" "length s3 \<le> length s2" using rx_plus_sound[OF c] by auto
  have l4: "length s4 \<le> length s3" using rx_lit_sound[OF d] by auto
  have l5: "length p \<le> length s4" "length s5 \<le> length s4" using rx_plus_sound[OF e] by auto
  have l6: "length n \<le> length s5" if "g = Some (pre, n)" for pre n
    using f that pre_group_length by auto
  show ?thesis
    using l1 l2 l3 l4 l5 l6 assms(2) by (auto split: option.splits intro: le_trans)
qed

lemma re_match_in_set: "re_match_version s = Some g \<Longrightarrow> g \<in> set (version_re s)"
  by (auto simp: re_match_version_def split: list.splits)

lemma pre_order_rank: "pre \<noteq> [] \<Longrightarrow> (case pre_order pre of None \<Rightarrow> 4 | Some r \<Rightarrow> r) \<in> {1, 2, 3, 4}"
  by (auto simp: pre_order_def)

lemma parse_version_Some:
  assumes "re_match_version s = Some (M, m, p, g)" "groups_within_limit (M, m, p, g)"
  shows "\<exists>d e. parse_version s = Inr (int (dec M), int (dec m), int (dec p), d, e)
           \<and> d \<le> 0 \<and> e \<le> 0 \<and> (g = None \<longrightarrow> d = 0 \<and> e = 0) \<and> (g \<noteq> None \<longrightarrow> d < 0)"
proof -
  have s: "is_number M \<and> is_number m \<and> is_number p \<and>
         (case g of None \<Rightarrow> True | Some (pre, n) \<Rightarrow> pre \<noteq> [] \<and> is_number n)"
    using version_re_sound[OF re_match_in_set[OF assms(1)]] .
  then have dg: "digit_group M" "digit_group m" "digit_group p"
    using assms(2) by (simp_all add: digit_group_def groups_within_limit_iff)
  show ?thesis
  proof (cases g)
    case None
    then show ?thesis using dg assms(1)
      by (simp add: parse_version_def py_int_group py_bind_def pre_order_def)
  next
    case (Some a)
    obtain pre n where a: "a = (pre, n)" by (cases a)
    with s Some have pn: "pre \<noteq> []" "is_number n" by auto
    then have "n \<noteq> []" by (simp add: is_number_def)
    moreover have "digit_group n" using pn(2) assms(2) Some a by (simp add: digit_group_def)
    moreover have "0 < (case pre_order pre of None \<Rightarrow> 4 | Some r \<Rightarrow> r)"
      using pre_order_rank[OF pn(1)] by auto
    ultimately show ?thesis using dg assms(1) Some a
      by (simp add: parse_version_def py_int_group py_bind_def)
  qed
qed

lemma parse_version_long:
  assumes "re_match_version s = Some (M, m, p, g)" "\<not> groups_within_limit (M, m, p, g)"
  shows "parse_version s = Inl ValueError"
proof -
  have s: "case g of None \<Rightarrow> True | Some (pre, n) \<Rightarrow> is_number n"
    using version_re_sound[OF re_match_in_set[OF assms(1)]] by (auto split: option.splits)
  show ?thesis
  proof (cases "case g of None \<Rightarrow> False | Some (pre, n) \<Rightarrow> int_max_str_digits < length n")
    case True
    then obtain pre n where g: "g = Some (pre, n)" "int_max_str_digits < length n"
      by (auto split: option.splits)
    then have "n \<noteq> []" by auto
    then show ?thesis using assms(1) g py_int_long[OF g(2)]
      by (simp add: parse_version_def py_bind_def)
  next
    case False
    then have lim: "int_max_str_digits < length M \<or> int_max_str_digits < length m
        \<or> int_max_str_digits < length p"
      using assms(2) by (auto simp: groups_within_limit_iff split: option.splits)
    have pn: "\<exists>v. (case g of None \<Rightarrow> Inr 0 | Some (pre, n) \<Rightarrow> if n = [] then Inr 0 else py_int n) = Inr v"
      using False s by (auto simp: py_int_def split: option.splits)
    then obtain v where v: "(case g of None \<Rightarrow> Inr 0 | Some (x, n) \<Rightarrow> if n = [] then Inr 0 else py_int n) = Inr v"
      by blast
    have "py_int M = Inl ValueError \<or> py_int m = Inl ValueError \<or> py_int p = Inl ValueError"
      using lim py_int_long by blast
    moreover have "e = ValueError" if "py_int x = Inl e" for x e
      using that by (simp add: py_int_def split: if_splits)
    ultimately show ?thesis using assms(1) v
      by (auto simp: parse_version_def py_bind_def split: sum.splits)
  qed
qed

lemma match_short_string:
  assumes "re_match_version s = Some (M, m, p, g)" "length s \<le> int_max_str_digits"
  shows "groups_within_limit (M, m, p, g)"
  using version_re_lengths[OF re_match_in_set[OF assms(1)] assms(2)]
  by (simp add: groups_within_limit_iff)

text \<open>Unfolding rules for evaluating the parser and the classifier on a given string.\<close>

lemmas evx = parse_version_def re_match_version_def version_re_def pre_group_def rx_plus_def
  rx_lit_def rx_opt_lit_def is_digit_def is_lower_def py_int_def py_bind_def is_number_def
  dec_def digit_val_def pre_order_def zero_key_def version_compare_def int_max_str_digits_def

lemmas cls = is_alpha_def is_beta_def is_rc_def is_stable_def endswith_def startswith_def

lemmas grp = stable_str_def pre_str_def digit_group_def is_number_def is_digit_def
  int_max_str_digits_def hyphen_ok_def dot_ok_def

lemma stage_level_le: "stage_level st < 3"
  by (cases st) simp_all

lemma contains_set: "contains s q \<Longrightarrow> set q \<subseteq> set s"
proof (induction s)
  case Nil
  then show ?case by simp
next
  case (Cons c cs)
  from Cons.prems have "startswith (c # cs) q \<or> contains cs q" by simp
  then show ?case
  proof
    assume "startswith (c # cs) q"
    then have "take (length q) (c # cs) = q" by (simp add: startswith_def)
    then have "set q \<subseteq> set (c # cs)" by (metis set_take_subset)
    then show ?thesis .
  next
    assume "contains cs q"
    then show ?thesis using Cons.IH by auto
  qed
qed

lemma endswith_last: "endswith s q \<Longrightarrow> q \<noteq> [] \<Longrightarrow> last s = last q"
proof -
  assume a: "endswith s q" and q: "q \<noteq> []"
  then have "s = take (length s - length q) s @ q"
    by (metis endswith_def append_take_drop_id)
  then show ?thesis using q by (metis last_appendR)
qed

lemma endswith_self: "endswith (b @ s) s"
  by (simp add: endswith_def)

lemma number_no_dash: "is_number n \<Longrightarrow> CHR ''-'' \<notin> set n"
  using not_digit_dash by (auto simp: is_number_def list_all_iff)

lemma stage_name_no_dash: "CHR ''-'' \<notin> set (stage_name st)"
  by (cases st) simp_all

lemma number_last: "is_number n \<Longrightarrow> is_digit (last n)"
  by (simp add: is_number_def list_all_iff)

lemma hyphenless_not_staged:
  assumes "is_number M" "is_number m" "is_number p" "is_number N"
  shows "\<not> is_alpha (pre_str M m p [] st [] N) \<and> \<not> is_beta (pre_str M m p [] st [] N)
       \<and> \<not> is_rc (pre_str M m p [] st [] N)"
proof -
  let ?v = "pre_str M m p [] st [] N"
  have nodash: "CHR ''-'' \<notin> set ?v"
    using assms[THEN number_no_dash] stage_name_no_dash[of st] by (simp add: pre_str_def)
  have lst: "is_digit (last ?v)"
    using number_last[OF assms(4)] assms(4) by (simp add: pre_str_def is_number_def)
  have nc: "\<not> contains ?v (CHR ''-'' # q)" for q
    using contains_set[of ?v "CHR ''-'' # q"] nodash by auto
  have ne: "\<not> endswith ?v q" if "q \<noteq> []" "\<not> is_digit (last q)" for q
    using endswith_last[of ?v q] that lst by auto
  show ?thesis
    using nc ne[of "''alpha''"] ne[of "''beta''"] ne[of "''rc''"]
    by (simp add: is_alpha_def is_beta_def is_rc_def is_digit_def)
qed

text \<open>A digit group of 4301 digits, one more than \<^verbatim>\<open>int()\<close> reads.\<close>

lemma long_group:
  "is_number (replicate 4301 (CHR ''1'')) \<and> int_max_str_digits < length (replicate 4301 (CHR ''1''))"
  by (simp add: is_number_def list_all_iff is_digit_def int_max_str_digits_def)

lemma long_subordinal_raises:
  "parse_version (''1.2.3rc'' @ replicate 4301 (CHR ''1'')) = Inl ValueError"
proof -
  define N where "N = replicate 4301 (CHR ''1'')"
  have n: "is_number N" "int_max_str_digits < length N"
    using long_group by (simp_all add: N_def)
  have "re_match_version (pre_str ''1'' ''2'' ''3'' [] Rc [] N) = Some (''1'', ''2'', ''3'', Some (''rc'', N))"
    using match_pre_str[of "''1''" "''2''" "''3''" "[]" "[]" N Rc] n(1)
    by (simp add: is_number_def is_digit_def hyphen_ok_def dot_ok_def)
  moreover have "\<not> groups_within_limit (''1'', ''2'', ''3'', Some (''rc'', N))"
    using n(2) by simp
  ultimately have "parse_version (pre_str ''1'' ''2'' ''3'' [] Rc [] N) = Inl ValueError"
    by (rule parse_version_long)
  then show ?thesis by (simp add: pre_str_def N_def)
qed

text \<open>
  Claim C6. \<^verbatim>\<open>parse_version\<close> gives the zero key to every string the pattern does not
  match. For a matched string it returns a key when every captured digit group is within
  the limit of \<^verbatim>\<open>int()\<close>, as it is for every string of at most 4300 characters, and it
  raises \<^verbatim>\<open>ValueError\<close> otherwise. The zero key is at most the key of every matched
  string, with groups within the limit, whose major, minor and patch are not all zero or
  whose match has no pre-release group.
\<close>

theorem parse_version_total_zero_key:
  "(re_match_version s = None \<longrightarrow> parse_version s = Inr zero_key)
   \<and> (re_match_version s = Some grp \<and> groups_within_limit grp \<longrightarrow> (\<exists>k. parse_version s = Inr k))
   \<and> (re_match_version s = Some grp \<and> \<not> groups_within_limit grp \<longrightarrow> parse_version s = Inl ValueError)
   \<and> (length s \<le> int_max_str_digits \<longrightarrow> (\<exists>k. parse_version s = Inr k))
   \<and> (re_match_version u = None \<and> re_match_version s = Some (M, m, p, g)
        \<and> groups_within_limit (M, m, p, g)
        \<and> (g = None \<or> dec M \<noteq> 0 \<or> dec m \<noteq> 0 \<or> dec p \<noteq> 0)
       \<longrightarrow> (\<exists>k. parse_version s = Inr k \<and> zero_key \<le> k)
         \<and> (version_compare u s = Inr 0 \<or> version_compare u s = Inr (- 1)))"
proof (intro conjI impI)
  show "parse_version s = Inr zero_key" if "re_match_version s = None"
    using that by (simp add: parse_version_def)
  show "\<exists>k. parse_version s = Inr k" if "re_match_version s = Some grp \<and> groups_within_limit grp"
  proof -
    obtain A b c d where "grp = (A, b, c, d)" by (cases grp)
    with that parse_version_Some[of s A b c d] show ?thesis by auto
  qed
  show "parse_version s = Inl ValueError"
    if "re_match_version s = Some grp \<and> \<not> groups_within_limit grp"
  proof -
    obtain A b c d where "grp = (A, b, c, d)" by (cases grp)
    with that parse_version_long[of s A b c d] show ?thesis by auto
  qed
  show "\<exists>k. parse_version s = Inr k" if l: "length s \<le> int_max_str_digits"
  proof (cases "re_match_version s")
    case None
    then show ?thesis by (simp add: parse_version_def zero_key_def)
  next
    case (Some q)
    obtain A b c d where q: "q = (A, b, c, d)" by (cases q)
    with Some match_short_string[of s A b c d] l have "groups_within_limit (A, b, c, d)" by simp
    with Some q parse_version_Some[of s A b c d] show ?thesis by auto
  qed
  assume a: "re_match_version u = None \<and> re_match_version s = Some (M, m, p, g)
        \<and> groups_within_limit (M, m, p, g)
        \<and> (g = None \<or> dec M \<noteq> 0 \<or> dec m \<noteq> 0 \<or> dec p \<noteq> 0)"
  then obtain d e where k: "parse_version s = Inr (int (dec M), int (dec m), int (dec p), d, e)"
     "d \<le> 0" "e \<le> 0" "g = None \<longrightarrow> d = 0 \<and> e = 0"
    using parse_version_Some[of s M m p g] by auto
  have z: "zero_key \<le> (int (dec M), int (dec m), int (dec p), d, e)"
    using a k by (auto simp: zero_key_def)
  show "\<exists>k. parse_version s = Inr k \<and> zero_key \<le> k"
    using k z by simp
  have "parse_version u = Inr zero_key" using a by (simp add: parse_version_def)
  then show "version_compare u s = Inr 0 \<or> version_compare u s = Inr (- 1)"
    using k(1) z by (auto simp: version_compare_def py_bind_def)
qed

theorem zero_key_not_lowest:
  "re_match_version ''invalid'' = None \<and> re_match_version ''0.0.0-rc.1'' \<noteq> None
   \<and> version_compare ''invalid'' ''0.0.0-rc.1'' = Inr 1
   \<and> parse_version (''1.2.3rc'' @ replicate 4301 (CHR ''1'')) = Inl ValueError"
proof -
  have "re_match_version ''invalid'' = None \<and> re_match_version ''0.0.0-rc.1'' \<noteq> None
   \<and> version_compare ''invalid'' ''0.0.0-rc.1'' = Inr 1"
    by (simp add: evx)
  then show ?thesis using long_subordinal_raises by simp
qed

theorem parse_version_total_zero_key_witness:
  "parse_version ''invalid'' = Inr zero_key
   \<and> version_compare ''invalid'' ''3.13.0'' = Inr (- 1)
   \<and> version_compare ''invalid'' ''0.0.1-alpha.1'' = Inr (- 1)"
  using parse_version_total_zero_key[where s = "''invalid''"]
    parse_version_total_zero_key[where u = "''invalid''" and s = "''3.13.0''" and M = "''3''"
      and m = "''13''" and p = "''0''" and g = None]
    parse_version_total_zero_key[where u = "''invalid''" and s = "''0.0.1-alpha.1''" and M = "''0''"
      and m = "''0''" and p = "''1''" and g = "Some (''alpha'', ''1'')"]
  by (simp add: evx)

text \<open>
  Claim C1. A pre-release written without a sub-ordinal (\<^verbatim>\<open>3.11.0-rc\<close>,
  \<^verbatim>\<open>3.11.0rc\<close>, \<^verbatim>\<open>3.11.0-alpha\<close>), which the stage predicates class as alpha, beta
  or rc, is given the key of the stable version with the same numbers: the pattern takes a
  stage only when digits follow it. \<^verbatim>\<open>version_compare\<close> of the stable version and such a
  pre-release is \<open>0\<close>, where the claim has the stable version strictly greater.
\<close>

theorem bare_stage_gets_stable_key:
  assumes "digit_group M" "digit_group m" "digit_group p" "hyphen_ok hy"
  shows "(case st of Alpha \<Rightarrow> is_alpha | Beta \<Rightarrow> is_beta | Rc \<Rightarrow> is_rc)
           (stable_str M m p @ hy @ stage_name st)
       \<and> \<not> is_stable (stable_str M m p @ hy @ stage_name st)
       \<and> parse_version (stable_str M m p @ hy @ stage_name st) = parse_version (stable_str M m p)
       \<and> version_compare (stable_str M m p) (stable_str M m p @ hy @ stage_name st) = Inr 0"
proof -
  let ?v = "stable_str M m p @ hy @ stage_name st"
  have e: "endswith ?v (stage_name st)"
    using endswith_self[of "stable_str M m p @ hy" "stage_name st"] by simp
  then have c: "(case st of Alpha \<Rightarrow> is_alpha | Beta \<Rightarrow> is_beta | Rc \<Rightarrow> is_rc) ?v"
    by (cases st) (simp_all add: is_alpha_def is_beta_def is_rc_def)
  then have s: "\<not> is_stable ?v"
    by (cases st) (simp_all add: is_stable_def)
  have k: "parse_version ?v = parse_version (stable_str M m p)"
    using assms by (simp add: parse_bare_stage parse_stable_str)
  have "version_compare (stable_str M m p) ?v = Inr 0"
    using assms by (simp add: version_compare_def py_bind_def parse_bare_stage parse_stable_str)
  with c s k show ?thesis by simp
qed

theorem bare_stage_gets_stable_key_witness:
  "is_rc ''3.11.0-rc'' \<and> \<not> is_stable ''3.11.0-rc''
   \<and> version_compare ''3.11.0'' ''3.11.0-rc'' = Inr 0
   \<and> is_rc ''3.11.0rc'' \<and> version_compare ''3.11.0'' ''3.11.0rc'' = Inr 0
   \<and> is_alpha ''3.11.0-alpha'' \<and> version_compare ''3.11.0'' ''3.11.0-alpha'' = Inr 0"
  using bare_stage_gets_stable_key[of "''3''" "''11''" "''0''" "''-''" Rc]
    bare_stage_gets_stable_key[of "''3''" "''11''" "''0''" "[]" Rc]
    bare_stage_gets_stable_key[of "''3''" "''11''" "''0''" "''-''" Alpha]
  by (simp add: grp)

text \<open>
  With equal major, minor and patch numbers, a stable version compares above every
  pre-release that carries a numeric sub-ordinal, and among such pre-releases rc compares
  above beta above alpha, whatever the sub-ordinals and whichever spelling (hyphen, dot) is
  used. The written chain is 3.11.0 > 3.11.0-rc.1 > 3.11.0-beta.2 > 3.11.0-alpha.1.
\<close>

theorem stage_order_with_subordinal:
  assumes "digit_group M" "digit_group m" "digit_group p"
    and "digit_group M'" "digit_group m'" "digit_group p'"
    and "dec M = dec M'" "dec m = dec m'" "dec p = dec p'"
    and "hyphen_ok hy" "dot_ok dot" "digit_group N" "hyphen_ok hy'" "dot_ok dot'" "digit_group N'"
  shows "version_compare (stable_str M m p) (pre_str M' m' p' hy st dot N) = Inr 1
       \<and> (stage_level st' < stage_level st \<longrightarrow>
            version_compare (pre_str M m p hy st dot N) (pre_str M' m' p' hy' st' dot' N') = Inr 1)"
  using assms stage_level_le[of st] stage_level_le[of st']
  by (simp add: version_compare_def py_bind_def parse_stable_str parse_pre_str)

theorem stage_order_with_subordinal_witness:
  "version_compare ''3.11.0'' ''3.11.0-rc.1'' = Inr 1
   \<and> version_compare ''3.11.0-rc.1'' ''3.11.0-beta.2'' = Inr 1
   \<and> version_compare ''3.11.0-beta.2'' ''3.11.0-alpha.1'' = Inr 1"
  using stage_order_with_subordinal[of "''3''" "''11''" "''0''" "''3''" "''11''" "''0''" "''-''" "''.''" "''1''" "''-''" "''.''" "''2''" Rc Beta]
        stage_order_with_subordinal[of "''3''" "''11''" "''0''" "''3''" "''11''" "''0''" "''-''" "''.''" "''2''" "''-''" "''.''" "''1''" Beta Alpha]
  by (simp add: grp)

text \<open>
  Claim C2. For two pre-releases with equal major, minor and patch numbers and the same
  stage, the one with the strictly higher sub-ordinal gets the strictly smaller key:
  \<^verbatim>\<open>version_compare\<close> answers \<open>-1\<close>, so \<^verbatim>\<open>3.9.0-rc.2\<close> is ordered below
  \<^verbatim>\<open>3.9.0-rc.1\<close>. The last component of the key is the negated sub-ordinal.
\<close>

theorem higher_subordinal_sorts_lower:
  assumes "digit_group M" "digit_group m" "digit_group p"
    and "digit_group M'" "digit_group m'" "digit_group p'"
    and "dec M = dec M'" "dec m = dec m'" "dec p = dec p'"
    and "hyphen_ok hy" "dot_ok dot" "digit_group N" "hyphen_ok hy'" "dot_ok dot'" "digit_group N'"
    and "dec N' < dec N"
  shows "version_compare (pre_str M m p hy st dot N) (pre_str M' m' p' hy' st dot' N') = Inr (- 1)"
  using assms
  by (simp add: version_compare_def py_bind_def parse_pre_str)

theorem higher_subordinal_sorts_lower_witness: "version_compare ''3.9.0-rc.2'' ''3.9.0-rc.1'' = Inr (- 1)"
  using higher_subordinal_sorts_lower[of "''3''" "''9''" "''0''" "''3''" "''9''" "''0''" "''-''" "''.''" "''2''" "''-''" "''.''" "''1''" Rc]
  by (simp add: grp dec_def digit_val_def)

text \<open>
  Claim C10. A pre-release written without hyphen and dot, \<^verbatim>\<open>M.m.p\<close> directly followed
  by a stage name and digits (\<^verbatim>\<open>3.9.0rc1\<close>), with every digit group within the limit of
  \<^verbatim>\<open>int()\<close>, is classified stable: none of \<^verbatim>\<open>is_alpha\<close>, \<^verbatim>\<open>is_beta\<close>,
  \<^verbatim>\<open>is_rc\<close> holds for it. Its key is nevertheless the key of the hyphenated spelling of
  that pre-release, so it compares strictly below the stable version with the same numbers.
\<close>

theorem hyphenless_prerelease_stable_but_ranked:
  assumes "digit_group M" "digit_group m" "digit_group p" "digit_group N"
  shows "is_stable (pre_str M m p [] st [] N)
       \<and> \<not> is_alpha (pre_str M m p [] st [] N)
       \<and> \<not> is_beta (pre_str M m p [] st [] N)
       \<and> \<not> is_rc (pre_str M m p [] st [] N)
       \<and> parse_version (pre_str M m p [] st [] N)
           = Inr (int (dec M), int (dec m), int (dec p), int (stage_level st) - 3, - int (dec N))
       \<and> parse_version (pre_str M m p [] st [] N) = parse_version (pre_str M m p ''-'' st ''.'' N)
       \<and> version_compare (pre_str M m p [] st [] N) (stable_str M m p) = Inr (- 1)"
proof -
  let ?v = "pre_str M m p [] st [] N"
  have cl: "\<not> is_alpha ?v \<and> \<not> is_beta ?v \<and> \<not> is_rc ?v"
    using assms[THEN digit_group_number] by (intro hyphenless_not_staged)
  have pv: "parse_version ?v
      = Inr (int (dec M), int (dec m), int (dec p), int (stage_level st) - 3, - int (dec N))"
    using assms by (simp add: parse_pre_str hyphen_ok_def dot_ok_def)
  have pk: "parse_version ?v = parse_version (pre_str M m p ''-'' st ''.'' N)"
    using assms by (simp add: parse_pre_str hyphen_ok_def dot_ok_def)
  have vc: "version_compare ?v (stable_str M m p) = Inr (- 1)"
    using assms stage_level_le[of st]
    by (simp add: version_compare_def py_bind_def parse_stable_str parse_pre_str hyphen_ok_def dot_ok_def)
  show ?thesis using cl pv pk vc by (simp add: is_stable_def)
qed

theorem hyphenless_prerelease_stable_but_ranked_witness:
  "is_stable ''3.9.0rc1'' \<and> \<not> is_rc ''3.9.0rc1''
   \<and> parse_version ''3.9.0rc1'' = parse_version ''3.9.0-rc.1''
   \<and> version_compare ''3.9.0rc1'' ''3.9.0'' = Inr (- 1)"
  using hyphenless_prerelease_stable_but_ranked[of "''3''" "''9''" "''0''" "''1''" Rc]
  by (auto simp: grp dec_def digit_val_def)

theorem hyphenless_long_group_raises:
  "is_stable (''1.2.3rc'' @ replicate 4301 (CHR ''1''))
   \<and> parse_version (''1.2.3rc'' @ replicate 4301 (CHR ''1'')) = Inl ValueError
   \<and> version_compare (''1.2.3rc'' @ replicate 4301 (CHR ''1'')) ''1.2.3'' = Inl ValueError"
proof -
  define N where "N = replicate 4301 (CHR ''1'')"
  have n: "is_number N" using long_group by (simp add: N_def)
  have "\<not> is_alpha (pre_str ''1'' ''2'' ''3'' [] Rc [] N) \<and> \<not> is_beta (pre_str ''1'' ''2'' ''3'' [] Rc [] N)
       \<and> \<not> is_rc (pre_str ''1'' ''2'' ''3'' [] Rc [] N)"
    using n by (intro hyphenless_not_staged) (simp_all add: is_number_def is_digit_def)
  then have s: "is_stable (''1.2.3rc'' @ N)"
    by (simp add: is_stable_def pre_str_def)
  have p: "parse_version (''1.2.3rc'' @ N) = Inl ValueError"
    using long_subordinal_raises by (simp add: N_def)
  then have "version_compare (''1.2.3rc'' @ N) ''1.2.3'' = Inl ValueError"
    by (simp add: version_compare_def py_bind_def)
  with s p show ?thesis by (simp add: N_def)
qed

text \<open>
  Claim C7. For two version strings of the written forms \<^verbatim>\<open>M.m.p\<close> and
  \<^verbatim>\<open>M.m.p[-]STAGE[.]N\<close>, with every digit group within the limit of \<^verbatim>\<open>int()\<close>, the
  keys are equal exactly when the two strings denote the same release (same numbers, same
  stage, same sub-ordinal); and \<^verbatim>\<open>version_compare\<close> depends on its arguments through
  the results of \<^verbatim>\<open>parse_version\<close> only. Equal keys alone do not identify a release:
  text after the matched prefix is ignored (\<^verbatim>\<open>3.9.0\<close> and \<^verbatim>\<open>3.9.0.1\<close>), every
  unknown stage name has one rank, and unmatched text has the key of \<^verbatim>\<open>0.0.0\<close>.
\<close>

theorem key_equality_same_release:
  "(well_formed a \<and> well_formed b \<longrightarrow>
      (parse_version (render a) = parse_version (render b)) = (release_of a = release_of b))
   \<and> (parse_version x = parse_version x' \<and> parse_version y = parse_version y'
        \<longrightarrow> version_compare x y = version_compare x' y')"
proof (intro conjI impI)
  assume wf: "well_formed a \<and> well_formed b"
  have lv: "stage_level s = stage_level t \<longleftrightarrow> s = t" for s t
    by (cases s; cases t) simp_all
  have lv': "int (stage_level s) - 3 = int (stage_level t) - 3 \<longleftrightarrow> s = t" for s t
    using lv[of s t] by auto
  have ln: "int (stage_level s) - 3 \<noteq> 0" for s
    using stage_level_le[of s] by auto
  show "(parse_version (render a) = parse_version (render b)) = (release_of a = release_of b)"
    using wf ln
    by (cases a; cases b) (auto simp: parse_stable_str parse_pre_str lv')
next
  assume "parse_version x = parse_version x' \<and> parse_version y = parse_version y'"
  then show "version_compare x y = version_compare x' y'"
    by (simp add: version_compare_def)
qed

theorem key_equality_same_release_witness:
  "(parse_version ''3.9.0-rc.1'' = parse_version ''3.9.0rc1'')
   = (release_of (Pre_form ''3'' ''9'' ''0'' ''-'' Rc ''.'' ''1'') = release_of (Pre_form ''3'' ''9'' ''0'' [] Rc [] ''1''))
   \<and> version_compare ''3.9.0-rc.1'' ''3.9.0'' = version_compare ''3.9.0rc1'' ''3.9.0''"
proof -
  have k: "parse_version ''3.9.0-rc.1'' = parse_version ''3.9.0rc1''" "parse_version ''3.9.0'' = parse_version ''3.9.0''"
    by (simp_all add: evx)
  show ?thesis
    using key_equality_same_release[of "Pre_form ''3'' ''9'' ''0'' ''-'' Rc ''.'' ''1''" "Pre_form ''3'' ''9'' ''0'' [] Rc [] ''1''"
        "''3.9.0-rc.1''" "''3.9.0rc1''" "''3.9.0''" "''3.9.0''"] k
    by (simp add: grp)
qed

theorem equal_keys_different_release:
  "''3.9.0'' \<noteq> ''3.9.0.1'' \<and> parse_version ''3.9.0'' = parse_version ''3.9.0.1''
   \<and> ''3.9.0-dev.1'' \<noteq> ''3.9.0-post.1''
   \<and> parse_version ''3.9.0-dev.1'' = parse_version ''3.9.0-post.1''
   \<and> ''invalid'' \<noteq> ''0.0.0'' \<and> parse_version ''invalid'' = parse_version ''0.0.0''"
  by (simp add: evx)


section \<open>Properties of the filter\<close>

lemma filter_step_version_only:
  "e ''version'' = e' ''version'' \<Longrightarrow> filter_step ia ib irc ist vs e = filter_step ia ib irc ist vs e'"
  by (simp add: filter_step_def)





text \<open>
  Claim C4. For every version string exactly one class is assigned by testing alpha, beta,
  rc in this order and taking stable otherwise; \<^verbatim>\<open>is_stable\<close> holds if and only if none
  of \<^verbatim>\<open>is_alpha\<close>, \<^verbatim>\<open>is_beta\<close>, \<^verbatim>\<open>is_rc\<close> holds; and the chain of
  \<^verbatim>\<open>filter_versions\<close> appends a non-empty version exactly once when all four release
  types are requested, and when only the type of its class is requested.
\<close>

theorem classification_first_match_unique:
  "is_stable v = (\<not> (is_alpha v \<or> is_beta v \<or> is_rc v))
   \<and> (\<exists>!c. (c = Class_alpha \<and> is_alpha v)
           \<or> (c = Class_beta \<and> \<not> is_alpha v \<and> is_beta v)
           \<or> (c = Class_rc \<and> \<not> is_alpha v \<and> \<not> is_beta v \<and> is_rc v)
           \<or> (c = Class_stable \<and> is_stable v))
   \<and> (classify v = Class_stable) = is_stable v
   \<and> (v \<noteq> [] \<longrightarrow>
        filter_versions [[''version'' \<mapsto> JStr v]] (RT_List [''alpha'', ''beta'', ''rc'', ''stable'']) None
          = Inr [v]
      \<and> filter_versions [[''version'' \<mapsto> JStr v]] (RT_List [class_name (classify v)]) None = Inr [v])"
proof (intro conjI impI)
  show "is_stable v = (\<not> (is_alpha v \<or> is_beta v \<or> is_rc v))"
    by (simp add: is_stable_def)
  show "\<exists>!c. (c = Class_alpha \<and> is_alpha v)
           \<or> (c = Class_beta \<and> \<not> is_alpha v \<and> is_beta v)
           \<or> (c = Class_rc \<and> \<not> is_alpha v \<and> \<not> is_beta v \<and> is_rc v)
           \<or> (c = Class_stable \<and> is_stable v)"
    unfolding is_stable_def by (intro ex1I[of _ "classify v"]) (auto simp: classify_def)
  show "(classify v = Class_stable) = is_stable v"
    by (simp add: classify_def is_stable_def)
  assume v: "v \<noteq> []"
  show "filter_versions [[''version'' \<mapsto> JStr v]] (RT_List [''alpha'', ''beta'', ''rc'', ''stable'']) None = Inr [v]"
    using v by (simp add: filter_versions_def Let_def filter_step_def py_bind_def is_stable_def)
  show "filter_versions [[''version'' \<mapsto> JStr v]] (RT_List [class_name (classify v)]) None = Inr [v]"
    using v by (simp add: filter_versions_def Let_def filter_step_def py_bind_def is_stable_def classify_def)
qed

theorem classification_first_match_unique_witness:
  "classify ''3.11.0-rc.1'' = Class_rc \<and> \<not> is_stable ''3.11.0-rc.1''
   \<and> filter_versions [[''version'' \<mapsto> JStr ''3.11.0-rc.1'']] (RT_List [''alpha'', ''beta'', ''rc'', ''stable'']) None
       = Inr [''3.11.0-rc.1'']"
  using classification_first_match_unique[of "''3.11.0-rc.1''"]
  by (simp add: classify_def cls)

section \<open>Properties of the asset-name parser and the URL check\<close>

lemma startswith_append: "startswith u (a @ b) \<Longrightarrow> startswith u a"
proof -
  assume "startswith u (a @ b)"
  then have "take (length a + length b) u = a @ b" by (simp add: startswith_def)
  then have "take (length a) (take (length a + length b) u) = a" by simp
  then show ?thesis by (simp add: startswith_def min_def)
qed


lemma startswith_Cons: "startswith u (c # q) \<Longrightarrow> u \<noteq> [] \<and> hd u = c"
  by (cases u) (auto simp: startswith_def)

lemma py_strip_nonempty:
  assumes "u \<noteq> []" "\<not> py_isspace (hd u)"
  shows "py_strip u \<noteq> []"
proof -
  have "dropWhile py_isspace u = u" using assms by (cases u) auto
  moreover have "hd u \<in> set (rev u)" using assms(1) by simp
  then have "dropWhile py_isspace (rev u) \<noteq> []"
    using assms(2) by (metis dropWhile_eq_Nil_conv)
  ultimately show ?thesis by (simp add: py_strip_def)
qed

theorem untagged_url_accepted:
  "validate_download_url
     ''https://github.com/IBM/python-versions-pz/releases/download/untagged-abc123/python-3.13.3-linux-22.04-ppc64le.tar.gz''
     ''IBM'' ''python-versions-pz'' ''3.13.3'' ''python-3.13.3-linux-22.04-ppc64le.tar.gz''
   \<and> validate_download_url
     ''https://github.com/IBM/python-versions-pz/releases/download/3.12.0/python-3.13.3-linux-22.04-ppc64le.tar.gz''
     ''IBM'' ''python-versions-pz'' ''3.13.3'' ''python-3.13.3-linux-22.04-ppc64le.tar.gz''"
  by (simp add: validate_download_url_def startswith_def py_strip_def py_isspace_def)

text \<open>
  Claim C3. \<^verbatim>\<open>validate_download_url\<close> returns true exactly for the URLs that start
  with \<^verbatim>\<open>https://github.com/{owner}/{repo}/releases/download/\<close>; the tag and the file
  name are not consulted. A URL under that path with an \<^verbatim>\<open>untagged-\<close> segment, or with
  another tag, is therefore accepted.
\<close>

theorem validate_download_url_checks_base_only:
  "validate_download_url url owner repo tag filename
     = startswith url (''https://github.com/'' @ owner @ ''/'' @ repo @ ''/releases/download/'')"
proof (cases "startswith url (''https://github.com/'' @ owner @ ''/'' @ repo @ ''/releases/download/'')")
  case True
  then have g: "startswith url ''https://github.com/''"
    by (rule startswith_append)
  then have "url \<noteq> [] \<and> hd url = CHR ''h''"
    by (rule startswith_Cons)
  then have "url \<noteq> []" "py_strip url \<noteq> []"
    using py_strip_nonempty[of url] by (simp_all add: py_isspace_def)
  with True g show ?thesis
    by (simp add: validate_download_url_def)
next
  case False
  then show ?thesis
    by (simp add: validate_download_url_def)
qed

theorem validate_download_url_checks_base_only_witness:
  "validate_download_url
     ''https://github.com/IBM/python-versions-pz/releases/download/3.13.3/python-3.13.3-linux-22.04-ppc64le.tar.gz''
     ''IBM'' ''python-versions-pz'' ''3.13.3'' ''python-3.13.3-linux-22.04-ppc64le.tar.gz''
   \<and> \<not> validate_download_url
     ''https://github.com/WRONG/python-versions-pz/releases/download/3.13.3/python-3.13.3-linux-22.04-ppc64le.tar.gz''
     ''IBM'' ''python-versions-pz'' ''3.13.3'' ''python-3.13.3-linux-22.04-ppc64le.tar.gz''"
  using validate_download_url_checks_base_only[of "''https://github.com/IBM/python-versions-pz/releases/download/3.13.3/python-3.13.3-linux-22.04-ppc64le.tar.gz''"
      "''IBM''" "''python-versions-pz''" "''3.13.3''" "''python-3.13.3-linux-22.04-ppc64le.tar.gz''"]
    validate_download_url_checks_base_only[of "''https://github.com/WRONG/python-versions-pz/releases/download/3.13.3/python-3.13.3-linux-22.04-ppc64le.tar.gz''"
      "''IBM''" "''python-versions-pz''" "''3.13.3''" "''python-3.13.3-linux-22.04-ppc64le.tar.gz''"]
  by (simp add: startswith_def)

lemma endswith_append_same: "endswith (b @ s) (q @ s) = endswith b q"
  by (auto simp: endswith_def)


lemma py_split_plain: "sep \<notin> set x \<Longrightarrow> py_split sep x = [x]"
  by (induction x) auto

lemma py_split_field: "sep \<notin> set x \<Longrightarrow> py_split sep (x @ sep # r) = x # py_split sep r"
  by (induction x) auto

lemma py_split_join:
  "fields \<noteq> [] \<Longrightarrow> \<forall>x\<in>set fields. sep \<notin> set x \<Longrightarrow> py_split sep (join_fields sep fields) = fields"
  by (induction sep fields rule: join_fields.induct) (simp_all add: py_split_plain py_split_field)

lemma strip_prefix_known:
  "p \<in> set PREFIXES \<Longrightarrow> strip_prefix_loop PREFIXES (p @ r) = r"
  by (auto simp: PREFIXES_def startswith_def)

lemma strip_suffix_known:
  assumes "s \<in> set SUFFIXES" "\<not> (s = ''.json'' \<and> endswith b ''.sbom'')"
  shows "strip_suffix_loop SUFFIXES (b @ s) = b"
proof -
  have ne: "\<not> endswith (b @ s) q" if "q \<noteq> []" "s \<noteq> []" "last s \<noteq> last q" for q
    using endswith_last[of "b @ s" q] that by auto
  have sb: "endswith (b @ ''.json'') ''.sbom.json'' = endswith b ''.sbom''"
    using endswith_append_same[of b "''.json''" "''.sbom''"] by simp
  consider "s = ''.tar.gz''" | "s = ''.sbom.json''" | "s = ''.json''" | "s = ''.log''"
    using assms(1) by (auto simp: SUFFIXES_def)
  then show ?thesis
  proof cases
    case 1
    then show ?thesis using endswith_self[of b s] by (simp add: SUFFIXES_def)
  next
    case 2
    then show ?thesis using endswith_self[of b s] ne[of "''.tar.gz''"] by (simp add: SUFFIXES_def)
  next
    case 3
    then show ?thesis using endswith_self[of b s] ne[of "''.tar.gz''"] sb assms(2)
      by (simp add: SUFFIXES_def)
  next
    case 4
    then show ?thesis
      using endswith_self[of b s] ne[of "''.tar.gz''"] ne[of "''.sbom.json''"] ne[of "''.json''"]
      by (simp add: SUFFIXES_def)
  qed
qed

lemma parse_filename_case:
  "parse_filename f =
     (case py_split (CHR ''-'') (strip_known_wrappers f) of
        a # b # c # d # _ \<Rightarrow>
          Some [(''version'', a), (''platform'', b), (''platform_version'', c), (''arch'', d)]
      | _ \<Rightarrow> None)"
  by (auto simp: parse_filename_def Let_def split: list.splits)

text \<open>
  Claim C9. \<^verbatim>\<open>parse_filename\<close> splits the stripped name on \<^verbatim>\<open>-\<close> and returns none
  when fewer than four fields result, otherwise the first four fields as version, platform,
  platform_version and arch. For a name made of a known prefix, fields joined by \<^verbatim>\<open>-\<close>
  and a known suffix, stripping removes exactly that prefix and that suffix (unless the
  longer suffix \<^verbatim>\<open>.sbom.json\<close> applies in place of \<^verbatim>\<open>.json\<close>), and the fields
  are recovered. The two examples of the specification are included.
\<close>

theorem parse_filename_fields:
  "parse_filename f =
     (case py_split (CHR ''-'') (strip_known_wrappers f) of
        a # b # c # d # _ \<Rightarrow>
          Some [(''version'', a), (''platform'', b), (''platform_version'', c), (''arch'', d)]
      | _ \<Rightarrow> None)
   \<and> (p \<in> set PREFIXES \<and> s \<in> set SUFFIXES \<and> fields \<noteq> []
        \<and> (\<forall>x\<in>set fields. CHR ''-'' \<notin> set x)
        \<and> \<not> (s = ''.json'' \<and> endswith (join_fields (CHR ''-'') fields) ''.sbom'')
      \<longrightarrow> strip_known_wrappers (p @ join_fields (CHR ''-'') fields @ s) = join_fields (CHR ''-'') fields
        \<and> parse_filename (p @ join_fields (CHR ''-'') fields @ s)
            = (if length fields < 4 then None
               else Some [(''version'', fields ! 0), (''platform'', fields ! 1),
                          (''platform_version'', fields ! 2), (''arch'', fields ! 3)]))
   \<and> parse_filename ''python-3.13.3-linux-22.04-ppc64le.tar.gz''
        = Some [(''version'', ''3.13.3''), (''platform'', ''linux''),
                (''platform_version'', ''22.04''), (''arch'', ''ppc64le'')]
   \<and> parse_filename ''python-3.13.3-linux.tar.gz'' = None"
proof (intro conjI impI)
  show "parse_filename f =
     (case py_split (CHR ''-'') (strip_known_wrappers f) of
        a # b # c # d # _ \<Rightarrow>
          Some [(''version'', a), (''platform'', b), (''platform_version'', c), (''arch'', d)]
      | _ \<Rightarrow> None)"
    by (rule parse_filename_case)
next
  assume a: "p \<in> set PREFIXES \<and> s \<in> set SUFFIXES \<and> fields \<noteq> []
        \<and> (\<forall>x\<in>set fields. CHR ''-'' \<notin> set x)
        \<and> \<not> (s = ''.json'' \<and> endswith (join_fields (CHR ''-'') fields) ''.sbom'')"
  let ?b = "join_fields (CHR ''-'') fields"
  show st: "strip_known_wrappers (p @ ?b @ s) = ?b"
    using a by (simp add: strip_known_wrappers_def strip_prefix_known strip_suffix_known)
  have sp: "py_split (CHR ''-'') ?b = fields"
    using a py_split_join[of fields "CHR ''-''"] by simp
  show "parse_filename (p @ ?b @ s)
            = (if length fields < 4 then None
               else Some [(''version'', fields ! 0), (''platform'', fields ! 1),
                          (''platform_version'', fields ! 2), (''arch'', fields ! 3)])"
    by (simp add: parse_filename_def Let_def st sp)
next
  show "parse_filename ''python-3.13.3-linux-22.04-ppc64le.tar.gz''
        = Some [(''version'', ''3.13.3''), (''platform'', ''linux''),
                (''platform_version'', ''22.04''), (''arch'', ''ppc64le'')]"
    by (simp add: parse_filename_def strip_known_wrappers_def PREFIXES_def SUFFIXES_def
        startswith_def endswith_def)
  show "parse_filename ''python-3.13.3-linux.tar.gz'' = None"
    by (simp add: parse_filename_def strip_known_wrappers_def PREFIXES_def SUFFIXES_def
        startswith_def endswith_def)
qed

theorem parse_filename_fields_witness:
  "parse_filename ''trivy-python-3.13.3-linux-22.04-s390x.sbom.json''
     = Some [(''version'', ''3.13.3''), (''platform'', ''linux''),
             (''platform_version'', ''22.04''), (''arch'', ''s390x'')]
   \<and> parse_filename ''python-3.13.3-linux.log'' = None"
  using parse_filename_fields[where p = "''trivy-python-''" and s = "''.sbom.json''"
      and fields = "[''3.13.3'', ''linux'', ''22.04'', ''s390x'']"]
    parse_filename_fields[where p = "''python-''" and s = "''.log''" and fields = "[''3.13.3'', ''linux'']"]
  by (simp add: PREFIXES_def SUFFIXES_def)

section \<open>Properties of the glob filter\<close>


lemma glob_token_star: "glob_token (CHR ''*'') = ''.*''"
  by (simp add: glob_token_def)

lemma star_special: "re_special (CHR ''*'')"
  by (simp add: re_special_def)


lemma special_not_alnum: "re_special c \<Longrightarrow> \<not> is_ascii_alnum c"
  by (auto simp: re_special_def is_ascii_alnum_def is_digit_def is_lower_def)

lemma plain_char: "\<not> re_special c \<Longrightarrow>
  c \<noteq> CHR 0x5C \<and> c \<noteq> CHR ''.'' \<and> c \<noteq> CHR ''*'' \<and> \<not> re_meta c \<and> c \<notin> set ''*+?{''"
  by (auto simp: re_special_def re_meta_def)


lemma re_escape_Cons:
  "re_escape (c # p) = (if re_special c then [CHR 0x5C, c] else [c]) @ re_escape p"
  by (simp add: re_escape_def)

lemma re_escape_no_star: "take (Suc 0) (re_escape p) \<noteq> [CHR ''*'']"
proof (cases p)
  case Nil
  then show ?thesis by (simp add: re_escape_def)
next
  case (Cons c q)
  show ?thesis
  proof (cases "re_special c")
    case True
    then show ?thesis using Cons by (simp add: re_escape_Cons)
  next
    case False
    then show ?thesis using Cons plain_char[OF False] by (simp add: re_escape_Cons)
  qed
qed

lemma replace_escape:
  "str_replace [CHR 0x5C, CHR ''*''] ''.*'' (re_escape p) = concat (map glob_token p)"
proof (induction p)
  case Nil
  then show ?case by (simp add: re_escape_def)
next
  case (Cons c p)
  show ?case
  proof (cases "c = CHR ''*''")
    case True
    show ?thesis using Cons.IH star_special True
      by (simp add: re_escape_Cons glob_token_star startswith_def)
  next
    case star: False
    show ?thesis
    proof (cases "re_special c")
      case True
      have tok: "glob_token c = [CHR 0x5C, c]" using True star by (simp add: glob_token_def)
      show ?thesis using Cons.IH star True re_escape_no_star[of p]
        by (simp add: re_escape_Cons tok startswith_def)
    next
      case False
      have tok: "glob_token c = [c]" using False star by (simp add: glob_token_def)
      show ?thesis using Cons.IH star False plain_char[OF False]
        by (simp add: re_escape_Cons tok startswith_def)
    qed
  qed
qed

lemma token_head: "glob_token c \<noteq> [] \<and> hd (glob_token c) \<notin> set ''*+?{''"
proof (cases "re_special c")
  case True
  then show ?thesis by (simp add: glob_token_def)
next
  case False
  then show ?thesis using plain_char[OF False] by (simp add: glob_token_def)
qed

lemma tokens_no_quantifier: "\<not> quantifier_next (concat (map glob_token p))"
proof (cases p)
  case Nil
  then show ?thesis by (simp add: quantifier_next_def)
next
  case (Cons c q)
  obtain t ts where t: "glob_token c = t # ts" "t \<notin> set ''*+?{''"
    using token_head[of c] by (cases "glob_token c") auto
  show ?thesis using Cons t by (simp add: quantifier_next_def)
qed

lemma parse_tokens: "re_parse (concat (map glob_token p)) = Inr (glob_items p)"
proof (induction p)
  case Nil
  then show ?case by (simp add: glob_items_def)
next
  case (Cons c p)
  have nq: "\<not> quantifier_next (concat (map glob_token p))" by (rule tokens_no_quantifier)
  have gi: "glob_items (x # p) = (if x = CHR ''*'' then AnyStar else Lit x) # glob_items p" for x
    by (simp add: glob_items_def)
  show ?case
  proof (cases "c = CHR ''*''")
    case True
    show ?thesis using Cons.IH nq True
      by (simp add: glob_token_star gi py_bind_def)
  next
    case star: False
    show ?thesis
    proof (cases "re_special c")
      case True
      have tok: "glob_token c = [CHR 0x5C, c]" using True star by (simp add: glob_token_def)
      show ?thesis using Cons.IH nq star special_not_alnum[OF True]
        by (simp add: tok gi py_bind_def)
    next
      case False
      have tok: "glob_token c = [c]" using False star by (simp add: glob_token_def)
      show ?thesis using Cons.IH nq star plain_char[OF False]
        by (simp add: tok gi py_bind_def)
    qed
  qed
qed

lemma star_matches_run:
  "rx_fullmatch (AnyStar # r) s =
     (\<exists>k\<le>length s. CHR 0x0A \<notin> set (take k s) \<and> rx_fullmatch r (drop k s))"
proof (induction s)
  case Nil
  then show ?case by simp
next
  case (Cons x xs)
  show ?case (is "?L = ?R")
  proof
    assume ?L
    then consider "x \<noteq> CHR 0x0A" "rx_fullmatch (AnyStar # r) xs" | "rx_fullmatch r (x # xs)"
      by auto
    then show ?R
    proof cases
      case 1
      then obtain k where "k \<le> length xs" "CHR 0x0A \<notin> set (take k xs)" "rx_fullmatch r (drop k xs)"
        using Cons.IH by auto
      then show ?thesis using 1(1) by (intro exI[of _ "Suc k"]) simp
    next
      case 2
      then show ?thesis by (intro exI[of _ 0]) simp
    qed
  next
    assume ?R
    then obtain k where k: "k \<le> length (x # xs)" "CHR 0x0A \<notin> set (take k (x # xs))"
      "rx_fullmatch r (drop k (x # xs))" by auto
    show ?L
    proof (cases k)
      case 0
      then show ?thesis using k by simp
    next
      case (Suc j)
      then have "j \<le> length xs" "CHR 0x0A \<notin> set (take j xs)" "rx_fullmatch r (drop j xs)" "x \<noteq> CHR 0x0A"
        using k by auto
      then have "rx_fullmatch (AnyStar # r) xs" using Cons.IH by auto
      then show ?thesis using \<open>x \<noteq> CHR 0x0A\<close> by simp
    qed
  qed
qed

text \<open>
  Claim C8. \<^verbatim>\<open>version_matches_filter\<close> is a full-string match of the version against
  the glob read character by character: every character other than \<^verbatim>\<open>*\<close> is escaped
  where the pattern language needs it and stands for itself, and each \<^verbatim>\<open>*\<close> becomes
  \<^verbatim>\<open>.*\<close>, a run of characters without a newline. 3.13.5 matches 3.13.* and 3.*.5, and
  matches neither 3.12.* nor 3.*.6.
\<close>

theorem glob_is_escaped_fullmatch:
  "version_matches_filter v p = Inr (rx_fullmatch (glob_items p) v)
   \<and> str_replace [CHR 0x5C, CHR ''*''] ''.*'' (re_escape p)
       = concat (map (\<lambda>c. if c = CHR ''*'' then ''.*'' else if re_special c then [CHR 0x5C, c] else [c]) p)
   \<and> rx_fullmatch (glob_items (CHR ''*'' # q)) v
       = (\<exists>k\<le>length v. CHR 0x0A \<notin> set (take k v) \<and> rx_fullmatch (glob_items q) (drop k v))
   \<and> (c \<noteq> CHR ''*'' \<longrightarrow>
        rx_fullmatch (glob_items (c # q)) v = (v \<noteq> [] \<and> hd v = c \<and> rx_fullmatch (glob_items q) (tl v)))
   \<and> rx_fullmatch (glob_items []) v = (v = [])
   \<and> version_matches_filter ''3.13.5'' ''3.13.*'' = Inr True
   \<and> version_matches_filter ''3.13.5'' ''3.*.5'' = Inr True
   \<and> version_matches_filter ''3.13.5'' ''3.12.*'' = Inr False
   \<and> version_matches_filter ''3.13.5'' ''3.*.6'' = Inr False"
proof -
  have vm: "version_matches_filter v p = Inr (rx_fullmatch (glob_items p) v)" for v p
    by (simp add: version_matches_filter_def Let_def replace_escape parse_tokens py_bind_def)
  have tk: "glob_token = (\<lambda>c. if c = CHR ''*'' then ''.*'' else if re_special c then [CHR 0x5C, c] else [c])"
    by (rule ext) (simp add: glob_token_def)
  have a: "rx_fullmatch (glob_items (CHR ''*'' # q)) v
       = (\<exists>k\<le>length v. CHR 0x0A \<notin> set (take k v) \<and> rx_fullmatch (glob_items q) (drop k v))"
    using star_matches_run[of "glob_items q" v] by (simp add: glob_items_def)
  have b: "rx_fullmatch (glob_items (c # q)) v = (v \<noteq> [] \<and> hd v = c \<and> rx_fullmatch (glob_items q) (tl v))"
    if "c \<noteq> CHR ''*''"
    using that by (cases v) (simp_all add: glob_items_def)
  have e: "rx_fullmatch (glob_items []) v = (v = [])"
    by (simp add: glob_items_def)
  have x1: "version_matches_filter ''3.13.5'' ''3.13.*'' = Inr True"
    and x2: "version_matches_filter ''3.13.5'' ''3.*.5'' = Inr True"
    and x3: "version_matches_filter ''3.13.5'' ''3.12.*'' = Inr False"
    and x4: "version_matches_filter ''3.13.5'' ''3.*.6'' = Inr False"
    by (simp_all add: vm glob_items_def)
  show ?thesis
    using vm replace_escape[of p] a b e x1 x2 x3 x4 unfolding tk by blast
qed

theorem glob_is_escaped_fullmatch_witness:
  "version_matches_filter ''3.12.5'' ''3.1*'' = Inr True
   \<and> version_matches_filter ''3.13.0'' ''*.13.0'' = Inr True
   \<and> version_matches_filter ''3.13.6'' ''3.*.5'' = Inr False
   \<and> rx_fullmatch (glob_items ''a+b'') ''a+b''"
  using glob_is_escaped_fullmatch[of "''3.12.5''" "''3.1*''"] glob_is_escaped_fullmatch[of "''3.13.0''" "''*.13.0''"]
    glob_is_escaped_fullmatch[of "''3.13.6''" "''3.*.5''"] glob_is_escaped_fullmatch[where c = "CHR ''a''" and q = "''+b''" and v = "''a+b''"]
  by (simp add: glob_items_def)

section \<open>Properties of the emitted manifest entries\<close>

lemma parsed_keys:
  assumes "parse_filename f = Some parsed"
  shows "\<exists>a p v. dict_get parsed ''arch'' = Inr a \<and> dict_get parsed ''platform'' = Inr p
           \<and> dict_get parsed ''platform_version'' = Inr v"
  using assms by (auto simp: parse_filename_def Let_def dict_get_def split: if_splits)

lemma build_loop_step:
  "\<exists>entries' errors'.
     build_loop tag owner repo entries errors (asset # rest) = build_loop tag owner repo entries' errors' rest
     \<and> (entries' = entries \<or> (\<exists>e. entries' = entries @ [e] \<and> rebuilt_entry tag owner repo e))"
proof (cases "should_skip (asset_get asset ''name'')")
  case True
  then show ?thesis by (intro exI[of _ entries] exI[of _ errors]) simp
next
  case skip: False
  show ?thesis
  proof (cases "parse_filename (asset_get asset ''name'')")
    case None
    then have "build_loop tag owner repo entries errors (asset # rest)
        = build_loop tag owner repo entries
            (errors @ [''Filename parsing failed for asset '' @ [CHR 0x27]
               @ asset_get asset ''name'' @ [CHR 0x27]]) rest"
      using skip by (simp add: Let_def)
    then show ?thesis by blast
  next
    case (Some parsed)
    obtain a p v where k: "dict_get parsed ''arch'' = Inr a" "dict_get parsed ''platform'' = Inr p"
      "dict_get parsed ''platform_version'' = Inr v"
      using parsed_keys[OF Some] by blast
    show ?thesis
    proof (cases "validate_download_url (asset_get asset ''browser_download_url'') owner repo tag (asset_get asset ''name'')")
      case False
      then have "\<exists>errors'. build_loop tag owner repo entries errors (asset # rest)
          = build_loop tag owner repo entries errors' rest"
        using skip Some by (simp add: Let_def del: append_assoc) blast
      then show ?thesis by blast
    next
      case True
      let ?e = "[(''version'', tag), (''filename'', asset_get asset ''name''), (''arch'', a),
                 (''platform'', p), (''platform_version'', v),
                 (''download_url'', release_base owner repo @ tag @ ''/'' @ asset_get asset ''name'')]"
      have "rebuilt_entry tag owner repo ?e" by (simp add: rebuilt_entry_def)
      moreover have "build_loop tag owner repo entries errors (asset # rest)
          = build_loop tag owner repo (entries @ [?e]) errors rest"
        using skip Some True k by (simp add: Let_def py_bind_def)
      ultimately show ?thesis by blast
    qed
  qed
qed

lemma build_loop_result:
  "list_all (rebuilt_entry tag owner repo) entries \<Longrightarrow>
   \<exists>es errs. build_loop tag owner repo entries errors assets = Inr (es, errs)
      \<and> list_all (rebuilt_entry tag owner repo) es"
proof (induction assets arbitrary: entries errors)
  case Nil
  then show ?case by simp
next
  case (Cons asset rest)
  obtain entries' errors' where s:
    "build_loop tag owner repo entries errors (asset # rest) = build_loop tag owner repo entries' errors' rest"
    "entries' = entries \<or> (\<exists>e. entries' = entries @ [e] \<and> rebuilt_entry tag owner repo e)"
    using build_loop_step[of tag owner repo entries errors asset rest] by blast
  have "list_all (rebuilt_entry tag owner repo) entries'"
    using s(2) Cons.prems by auto
  from Cons.IH[OF this, of errors'] show ?case
    unfolding s(1) .
qed

text \<open>
  \<^verbatim>\<open>build_manifest_entries\<close> returns a pair for every list of assets, and every entry
  it emits carries the tag as version and the download URL written from owner, repo, tag
  and file name, whatever URL the asset supplied.
\<close>

theorem build_manifest_entries_rebuilds_url:
  "(\<exists>es errs. build_manifest_entries tag assets owner repo = Inr (es, errs))
   \<and> (build_manifest_entries tag assets owner repo = Inr (es, errs) \<and> e \<in> set es \<longrightarrow>
        (\<exists>name. map_of e ''filename'' = Some name \<and> map_of e ''version'' = Some tag
           \<and> map_of e ''download_url'' = Some (release_base owner repo @ tag @ ''/'' @ name)))"
proof -
  obtain es' errs' where r: "build_manifest_entries tag assets owner repo = Inr (es', errs')"
    "list_all (rebuilt_entry tag owner repo) es'"
    using build_loop_result[of tag owner repo "[]" "[]" assets]
    by (auto simp: build_manifest_entries_def)
  show ?thesis using r by (auto simp: list_all_iff rebuilt_entry_def)
qed

theorem build_manifest_entries_rebuilds_url_witness:
  "build_manifest_entries ''3.13.3''
     [map_of [(''name'', ''python-3.13.3-linux-22.04-ppc64le.tar.gz''),
              (''browser_download_url'',
               ''https://github.com/IBM/python-versions-pz/releases/download/untagged-abc123/python-3.13.3-linux-22.04-ppc64le.tar.gz'')]]
     ''IBM'' ''python-versions-pz''
   = Inr ([[(''version'', ''3.13.3''),
            (''filename'', ''python-3.13.3-linux-22.04-ppc64le.tar.gz''),
            (''arch'', ''ppc64le''), (''platform'', ''linux''), (''platform_version'', ''22.04''),
            (''download_url'',
             ''https://github.com/IBM/python-versions-pz/releases/download/3.13.3/python-3.13.3-linux-22.04-ppc64le.tar.gz'')]],
          [])"
proof -
  let ?name = "''python-3.13.3-linux-22.04-ppc64le.tar.gz''"
  let ?url = "''https://github.com/IBM/python-versions-pz/releases/download/untagged-abc123/python-3.13.3-linux-22.04-ppc64le.tar.gz''"
  have sk: "\<not> should_skip ?name"
    by (simp add: should_skip_def endswith_def startswith_def)
  have pf: "parse_filename ?name = Some [(''version'', ''3.13.3''), (''platform'', ''linux''),
                (''platform_version'', ''22.04''), (''arch'', ''ppc64le'')]"
    by (simp add: parse_filename_def strip_known_wrappers_def PREFIXES_def SUFFIXES_def
        startswith_def endswith_def)
  have vd: "validate_download_url ?url ''IBM'' ''python-versions-pz'' ''3.13.3'' ?name"
    by (simp add: validate_download_url_def startswith_def py_strip_def py_isspace_def)
  have "build_manifest_entries ''3.13.3''
     [map_of [(''name'', ?name), (''browser_download_url'', ?url)]] ''IBM'' ''python-versions-pz''
   = Inr ([[(''version'', ''3.13.3''), (''filename'', ?name),
            (''arch'', ''ppc64le''), (''platform'', ''linux''), (''platform_version'', ''22.04''),
            (''download_url'', release_base ''IBM'' ''python-versions-pz'' @ ''3.13.3'' @ ''/'' @ ?name)]], [])"
    by (simp add: build_manifest_entries_def asset_get_def sk pf vd dict_get_def py_bind_def Let_def)
  then show ?thesis
    using build_manifest_entries_rebuilds_url[of "''3.13.3''"
        "[map_of [(''name'', ?name), (''browser_download_url'', ?url)]]" "''IBM''" "''python-versions-pz''"]
    by (simp add: release_base_def)
qed

end
